theory Spec2Isabelle
  imports Complex_Main
begin

section \<open>JavaScript primitives\<close>

text \<open>
  Errors of the model. \<open>SurfaceInitError\<close> is the \<open>Error('Could not get canvas context')\<close>
  thrown by the constructors. \<open>TypeError\<close> is what JavaScript throws when a property of
  \<open>undefined\<close> is read or written (\<open>grid[c][r]\<close> with \<open>grid[c]\<close> undefined).
  \<open>OutOfRange\<close> marks an element access outside an array's bounds where JavaScript
  would go on with \<open>undefined\<close>/\<open>NaN\<close> or grow the array: values that the integer
  grid of this model does not hold, so the model stops there.
\<close>

datatype error = SurfaceInitError | TypeError | OutOfRange

text \<open>
  The remainder operator \<open>a % b\<close> on integral numbers: the result has the sign of the
  dividend and the magnitude \<open>|a| mod |b|\<close>; \<open>a % 0\<close> is \<open>NaN\<close>, here \<open>None\<close>.
\<close>

definition js_rem :: "int \<Rightarrow> int \<Rightarrow> int option" where
  "js_rem a b = (if b = 0 then None else Some (sgn a * (\<bar>a\<bar> mod \<bar>b\<bar>)))"

text \<open>
  An array access \<open>xs[k]\<close> where \<open>k\<close> is an integral number or \<open>NaN\<close>: \<open>js_slot\<close> is
  the element the index names, if it names one (a negative, too large or \<open>NaN\<close> index
  names none), and \<open>js_index\<close> is the value read, \<open>None\<close> for \<open>undefined\<close>.
\<close>

definition js_slot :: "'a list \<Rightarrow> int option \<Rightarrow> nat option" where
  "js_slot xs k =
     (case k of
        None \<Rightarrow> None
      | Some n \<Rightarrow> if 0 \<le> n \<and> nat n < length xs then Some (nat n) else None)"

definition js_index :: "'a list \<Rightarrow> int option \<Rightarrow> 'a option" where
  "js_index xs k = (case js_slot xs k of None \<Rightarrow> None | Some n \<Rightarrow> Some (xs ! n))"

section \<open>The canvas, the page and the fields the visuals share\<close>

text \<open>
  The canvas element as the code uses it: its \<open>width\<close> and \<open>height\<close> attributes
  (unsigned, written by \<open>resize\<close>) and what \<open>getContext('2d')\<close> returns, a context
  (named by a number) or \<open>null\<close>.
\<close>

record Canvas =
  cwidth :: nat
  cheight :: nat
  context2d :: "nat option"

text \<open>
  What the handlers read from the page at the time they run: the client size of
  \<open>canvas.parentElement\<close> (\<open>None\<close> when the canvas has no parent), the window's inner
  size, and the left and top of \<open>canvas.getBoundingClientRect()\<close>.
\<close>

record Page =
  parentClient :: "(nat \<times> nat) option"
  windowInner :: "nat \<times> nat"
  boundingRect :: "real \<times> real"

record MouseEvent =
  clientX :: real
  clientY :: real

text \<open>
  \<open>Math.random()\<close>: the stream of values its successive calls return. A function that
  draws takes the stream and the number of calls made so far, and returns the new count.
\<close>

type_synonym random = "nat \<Rightarrow> real"

text \<open>
  The fields the three visuals share: the canvas, the 2D context obtained at
  construction, the surface size, the handle of the pending animation frame request and
  the colour.
\<close>

record Visual =
  canvas :: Canvas
  ctx :: nat
  width :: nat
  height :: nat
  animationId :: "nat option"
  color :: string

section \<open>The cellular automaton (GameOfLife)\<close>

definition cellSize :: nat where
  "cellSize = 8"

text \<open>
  The grid is indexed \<open>grid[column][row]\<close>; its cells are numbers, 0 or 1 wherever the
  code writes one.
\<close>

record GameOfLife = Visual +
  cols :: nat
  rows :: nat
  grid :: "int list list"

text \<open>
  The neighbour count of \<open>update\<close>:
  \<^verbatim>\<open>for (let x = -1; x < 2; x++) for (let y = -1; y < 2; y++) {
      if (x === 0 && y === 0) continue;
      const col = (i + x + this.cols) % this.cols;
      const row = (j + y + this.rows) % this.rows;
      neighbors += this.grid[col][row]; }\<close>
\<close>

fun count_y :: "GameOfLife \<Rightarrow> nat \<Rightarrow> nat \<Rightarrow> int \<Rightarrow> int list \<Rightarrow> int \<Rightarrow> error + int" where
  "count_y s i j x [] neighbors = Inr neighbors"
| "count_y s i j x (y # ys) neighbors =
     (if x = 0 \<and> y = 0 then count_y s i j x ys neighbors
      else
        let col = js_rem (int i + x + int (cols s)) (int (cols s));
            row = js_rem (int j + y + int (rows s)) (int (rows s))
        in case js_index (grid s) col of
             None \<Rightarrow> Inl TypeError
           | Some column \<Rightarrow>
               (case js_index column row of
                  None \<Rightarrow> Inl OutOfRange
                | Some v \<Rightarrow> count_y s i j x ys (neighbors + v)))"

fun count_x :: "GameOfLife \<Rightarrow> nat \<Rightarrow> nat \<Rightarrow> int list \<Rightarrow> int \<Rightarrow> error + int" where
  "count_x s i j [] neighbors = Inr neighbors"
| "count_x s i j (x # xs) neighbors =
     (case count_y s i j x [-1, 0, 1] neighbors of
        Inl e \<Rightarrow> Inl e
      | Inr n \<Rightarrow> count_x s i j xs n)"

definition count_neighbors :: "GameOfLife \<Rightarrow> nat \<Rightarrow> nat \<Rightarrow> error + int" where
  "count_neighbors s i j = count_x s i j [-1, 0, 1] 0"

text \<open>Conway's rules as the three branches of \<open>update\<close> write them.\<close>

definition conway :: "int \<Rightarrow> int \<Rightarrow> int" where
  "conway state neighbors =
     (if state = 0 \<and> neighbors = 3 then 1
      else if state = 1 \<and> (neighbors < 2 \<or> neighbors > 3) then 0
      else state)"

text \<open>The read \<open>this.grid[i][j]\<close> and the write \<open>next[i][j] = v\<close> at loop indices.\<close>

definition get_cell :: "int list list \<Rightarrow> nat \<Rightarrow> nat \<Rightarrow> error + int" where
  "get_cell g i j =
     (if i < length g then (if j < length (g ! i) then Inr (g ! i ! j) else Inl OutOfRange)
      else Inl TypeError)"

definition set_cell :: "int list list \<Rightarrow> nat \<Rightarrow> nat \<Rightarrow> int \<Rightarrow> error + int list list" where
  "set_cell g i j v =
     (if i < length g then
        (if j < length (g ! i) then Inr (g[i := (g ! i)[j := v]]) else Inl OutOfRange)
      else Inl TypeError)"

text \<open>
  The body of the two outer loops of \<open>update\<close>: cell \<open>(i, j)\<close> is read from
  \<open>this.grid\<close>, the result is written to \<open>next\<close>.
\<close>

definition update_cell :: "GameOfLife \<Rightarrow> int list list \<Rightarrow> nat \<Rightarrow> nat \<Rightarrow> error + int list list" where
  "update_cell s next i j =
     (case get_cell (grid s) i j of
        Inl e \<Rightarrow> Inl e
      | Inr state \<Rightarrow>
          (case count_neighbors s i j of
             Inl e \<Rightarrow> Inl e
           | Inr neighbors \<Rightarrow> set_cell next i j (conway state neighbors)))"

fun update_j :: "GameOfLife \<Rightarrow> nat \<Rightarrow> nat list \<Rightarrow> int list list \<Rightarrow> error + int list list" where
  "update_j s i [] next = Inr next"
| "update_j s i (j # js) next =
     (case update_cell s next i j of
        Inl e \<Rightarrow> Inl e
      | Inr next' \<Rightarrow> update_j s i js next')"

fun update_i :: "GameOfLife \<Rightarrow> nat list \<Rightarrow> int list list \<Rightarrow> error + int list list" where
  "update_i s [] next = Inr next"
| "update_i s (i # is) next =
     (case update_j s i [0..<rows s] next of
        Inl e \<Rightarrow> Inl e
      | Inr next' \<Rightarrow> update_i s is next')"

text \<open>
  \<open>update\<close>: \<open>next\<close> starts as a copy of the grid (\<open>this.grid.map(arr => [...arr])\<close>),
  the loops fill it, and it replaces \<open>this.grid\<close>.
\<close>

definition update :: "GameOfLife \<Rightarrow> error + GameOfLife" where
  "update s =
     (case update_i s [0..<cols s] (grid s) of
        Inl e \<Rightarrow> Inl e
      | Inr next \<Rightarrow> Inr (s\<lparr>grid := next\<rparr>))"

subsection \<open>Allocation, seeding and resize\<close>

text \<open>
  \<open>createGrid\<close>: \<open>new Array(this.cols).fill(null).map(() => new Array(this.rows).fill(0))\<close>.
\<close>

definition createGrid :: "GameOfLife \<Rightarrow> GameOfLife" where
  "createGrid s = s\<lparr>grid := replicate (cols s) (replicate (rows s) 0)\<rparr>"

text \<open>
  \<open>seed\<close>: \<open>this.grid[i][j] = Math.random() < 0.15 ? 1 : 0\<close> for every \<open>i < cols\<close>,
  \<open>j < rows\<close>, one draw per cell.
\<close>

fun seed_j :: "random \<Rightarrow> nat \<Rightarrow> nat list \<Rightarrow> int list list \<times> nat \<Rightarrow> error + int list list \<times> nat" where
  "seed_j rnd i [] gk = Inr gk"
| "seed_j rnd i (j # js) gk =
     (case set_cell (fst gk) i j (if rnd (snd gk) < 0.15 then 1 else 0) of
        Inl e \<Rightarrow> Inl e
      | Inr g' \<Rightarrow> seed_j rnd i js (g', Suc (snd gk)))"

fun seed_i :: "random \<Rightarrow> nat \<Rightarrow> nat list \<Rightarrow> int list list \<times> nat \<Rightarrow> error + int list list \<times> nat" where
  "seed_i rnd n [] gk = Inr gk"
| "seed_i rnd n (i # is) gk =
     (case seed_j rnd i [0..<n] gk of
        Inl e \<Rightarrow> Inl e
      | Inr gk' \<Rightarrow> seed_i rnd n is gk')"

definition seed :: "random \<Rightarrow> nat \<Rightarrow> GameOfLife \<Rightarrow> error + GameOfLife \<times> nat" where
  "seed rnd k s =
     (case seed_i rnd (rows s) [0..<cols s] (grid s, k) of
        Inl e \<Rightarrow> Inl e
      | Inr (g, k') \<Rightarrow> Inr (s\<lparr>grid := g\<rparr>, k'))"

text \<open>
  \<open>resize\<close>: the canvas takes the parent's client size, or the window's inner size when
  it has no parent; \<open>width\<close> and \<open>height\<close> are read back from the canvas;
  \<open>cols = Math.ceil(width / cellSize)\<close>, \<open>rows = Math.ceil(height / cellSize)\<close>; then
  \<open>createGrid\<close> and \<open>seed\<close>.
\<close>

definition resize :: "Page \<Rightarrow> random \<Rightarrow> nat \<Rightarrow> GameOfLife \<Rightarrow> error + GameOfLife \<times> nat" where
  "resize page rnd k s =
     (let sz = (case parentClient page of Some client \<Rightarrow> client | None \<Rightarrow> windowInner page);
          s1 = s\<lparr>canvas := (canvas s)\<lparr>cwidth := fst sz, cheight := snd sz\<rparr>\<rparr>;
          s2 = s1\<lparr>width := cwidth (canvas s1), height := cheight (canvas s1)\<rparr>;
          s3 = s2\<lparr>cols := nat \<lceil>real (width s2) / real cellSize\<rceil>,
                  rows := nat \<lceil>real (height s2) / real cellSize\<rceil>\<rparr>
      in seed rnd k (createGrid s3))"

subsection \<open>The pointer-move handler\<close>

text \<open>
  One iteration of the two loops of \<open>handleMouseMove\<close>:
  \<^verbatim>\<open>const c = (col + i + this.cols) % this.cols;
  const r = (row + j + this.rows) % this.rows;
  if (this.grid[c] && this.grid[c][r] !== undefined) {
      if (Math.random() > 0.3) { this.grid[c][r] = 1; } }\<close>
  \<open>Math.random()\<close> is called only when the guard holds. The write goes through
  \<open>set_cell\<close>, which reports an index outside the grid.
\<close>

definition paint_cell ::
  "random \<Rightarrow> nat \<Rightarrow> nat \<Rightarrow> int \<Rightarrow> int \<Rightarrow> int \<Rightarrow> int \<Rightarrow> int list list \<times> nat \<Rightarrow> error + int list list \<times> nat" where
  "paint_cell rnd ncols nrows col row i j gk =
     (let c = js_rem (col + i + int ncols) (int ncols);
          r = js_rem (row + j + int nrows) (int nrows)
      in case js_slot (fst gk) c of
           None \<Rightarrow> Inr gk
         | Some ci \<Rightarrow>
             (case js_slot (fst gk ! ci) r of
                None \<Rightarrow> Inr gk
              | Some ri \<Rightarrow>
                  if rnd (snd gk) > 0.3 then
                    (case set_cell (fst gk) ci ri 1 of
                       Inl e \<Rightarrow> Inl e
                     | Inr g' \<Rightarrow> Inr (g', Suc (snd gk)))
                  else Inr (fst gk, Suc (snd gk))))"

fun paint_j ::
  "random \<Rightarrow> nat \<Rightarrow> nat \<Rightarrow> int \<Rightarrow> int \<Rightarrow> int \<Rightarrow> int list \<Rightarrow> int list list \<times> nat \<Rightarrow> error + int list list \<times> nat" where
  "paint_j rnd ncols nrows col row i [] gk = Inr gk"
| "paint_j rnd ncols nrows col row i (j # js) gk =
     (case paint_cell rnd ncols nrows col row i j gk of
        Inl e \<Rightarrow> Inl e
      | Inr gk' \<Rightarrow> paint_j rnd ncols nrows col row i js gk')"

fun paint_i ::
  "random \<Rightarrow> nat \<Rightarrow> nat \<Rightarrow> int \<Rightarrow> int \<Rightarrow> int list \<Rightarrow> int list list \<times> nat \<Rightarrow> error + int list list \<times> nat" where
  "paint_i rnd ncols nrows col row [] gk = Inr gk"
| "paint_i rnd ncols nrows col row (i # is) gk =
     (case paint_j rnd ncols nrows col row i [-1, 0, 1] gk of
        Inl e \<Rightarrow> Inl e
      | Inr gk' \<Rightarrow> paint_i rnd ncols nrows col row is gk')"

text \<open>
  The cell under the pointer: \<open>x = e.clientX - rect.left\<close>, \<open>col = Math.floor(x / cellSize)\<close>,
  and the same for \<open>y\<close> and \<open>row\<close>.
\<close>

definition pointer_col :: "Page \<Rightarrow> MouseEvent \<Rightarrow> int" where
  "pointer_col page e = \<lfloor>(clientX e - fst (boundingRect page)) / real cellSize\<rfloor>"

definition pointer_row :: "Page \<Rightarrow> MouseEvent \<Rightarrow> int" where
  "pointer_row page e = \<lfloor>(clientY e - snd (boundingRect page)) / real cellSize\<rfloor>"

definition handleMouseMove ::
  "Page \<Rightarrow> MouseEvent \<Rightarrow> random \<Rightarrow> nat \<Rightarrow> GameOfLife \<Rightarrow> error + GameOfLife \<times> nat" where
  "handleMouseMove page e rnd k s =
     (case paint_i rnd (cols s) (rows s) (pointer_col page e) (pointer_row page e) [-1, 0, 1] (grid s, k) of
        Inl e \<Rightarrow> Inl e
      | Inr (g, k') \<Rightarrow> Inr (s\<lparr>grid := g\<rparr>, k'))"

subsection \<open>The automaton as the specification words it\<close>

text \<open>
  The toroidal index: \<open>k\<close> wrapped into \<open>[0, n)\<close> by the mathematical modulus. The live
  neighbours of cell \<open>(i, j)\<close>: the sum of the cells at the eight offsets, each wrapped
  modulo \<open>cols\<close> and \<open>rows\<close>.
\<close>

definition wrap :: "int \<Rightarrow> nat \<Rightarrow> nat" where
  "wrap k n = nat (k mod int n)"

definition live_neighbors :: "GameOfLife \<Rightarrow> nat \<Rightarrow> nat \<Rightarrow> int" where
  "live_neighbors s i j =
     (\<Sum>(x, y) \<leftarrow> [(-1, -1), (-1, 0), (-1, 1), (0, -1), (0, 1), (1, -1), (1, 0), (1, 1)].
        grid s ! wrap (int i + x) (cols s) ! wrap (int j + y) (rows s))"

text \<open>
  The invariant of the class: the grid has \<open>cols\<close> columns of \<open>rows\<close> cells. \<open>createGrid\<close>
  establishes it and nothing else changes the shape of the grid.
\<close>

definition grid_ok :: "GameOfLife \<Rightarrow> bool" where
  "grid_ok s \<longleftrightarrow> length (grid s) = cols s \<and> (\<forall>c \<in> set (grid s). length c = rows s)"

text \<open>The state of cell \<open>(i, j)\<close> after a step, and one neighbour by its offset.\<close>

definition next_state :: "GameOfLife \<Rightarrow> nat \<Rightarrow> nat \<Rightarrow> int" where
  "next_state s i j = conway (grid s ! i ! j) (live_neighbors s i j)"

definition nb :: "GameOfLife \<Rightarrow> nat \<Rightarrow> nat \<Rightarrow> int \<Rightarrow> int \<Rightarrow> int" where
  "nb s i j x y = grid s ! wrap (int i + x) (cols s) ! wrap (int j + y) (rows s)"

text \<open>A blinker in the middle of a 5 by 5 grid.\<close>

definition blinker :: GameOfLife where
  "blinker = \<lparr>canvas = \<lparr>cwidth = 40, cheight = 40, context2d = Some 0\<rparr>,
      ctx = 0, width = 40, height = 40, animationId = None, color = ''#8b5cf6'',
      cols = 5, rows = 5,
      grid = [[0, 0, 0, 0, 0], [0, 0, 0, 0, 0], [0, 1, 1, 1, 0], [0, 0, 0, 0, 0], [0, 0, 0, 0, 0]]\<rparr>"

text \<open>The cell value \<open>seed\<close> writes for draw number \<open>k\<close>.\<close>

definition sample :: "random \<Rightarrow> nat \<Rightarrow> int" where
  "sample rnd k = (if rnd k < 0.15 then 1 else 0)"

text \<open>A page and a stream of draws for concrete runs.\<close>

definition page0 :: Page where
  "page0 = \<lparr>parentClient = Some (20, 10), windowInner = (1024, 768), boundingRect = (0, 0)\<rparr>"

definition rnd0 :: random where
  "rnd0 n = (if n = 0 then 0.1 else 0.5)"

text \<open>
  What a pointer move may do to a grid: the shape stays, and every cell is as before or is
  an existing cell now equal to 1.
\<close>

definition painted :: "int list list \<Rightarrow> int list list \<Rightarrow> bool" where
  "painted g g' \<longleftrightarrow> map length g' = map length g \<and>
     (\<forall>c r. g' ! c ! r = g ! c ! r \<or> (c < length g \<and> r < length (g ! c) \<and> g' ! c ! r = 1))"

text \<open>
  One guarded write of the pointer-move handler, when it is made (\<open>b\<close>: the draw was
  above 0.3), and grids of \<open>m\<close> columns of \<open>n\<close> cells.
\<close>

definition paint :: "int list list \<Rightarrow> nat \<Rightarrow> nat \<Rightarrow> bool \<Rightarrow> int list list" where
  "paint g c r b = (if b then g[c := (g ! c)[r := 1]] else g)"

definition shaped :: "int list list \<Rightarrow> nat \<Rightarrow> nat \<Rightarrow> bool" where
  "shaped g m n \<longleftrightarrow> length g = m \<and> (\<forall>c < m. length (g ! c) = n)"





section \<open>The gravitational particle field (ParticleAttractor)\<close>

text \<open>
  JavaScript numbers that are not integral (positions, velocities, distances) are
  modelled as real numbers: rounding is not modelled. The one place where the source's
  arithmetic leaves the reals, the quotient \<open>0 / 0\<close> of the pointer repulsion, is a case
  of the model (see \<open>repulsion\<close>).
\<close>

record Particle =
  px :: real
  py :: real
  pvx :: real
  pvy :: real
  psize :: real

record ParticleAttractor = Visual +
  particles :: "Particle option list"
  particleCount :: nat
  mouse :: "real \<times> real"

text \<open>
  An entry \<open>None\<close> of \<open>particles\<close> is a particle whose position and velocity are all
  \<open>NaN\<close> (its size is not kept: \<open>update\<close> never reads it).

  \<open>Math.atan2(y, x)\<close> on reals; the zeros that reach it here are differences of
  non-negative numbers and so positive zeros, for which \<open>atan2(0, 0) = 0\<close> and
  \<open>atan2(0, x) = pi\<close> when \<open>x < 0\<close>.
\<close>

definition atan2 :: "real \<Rightarrow> real \<Rightarrow> real" where
  "atan2 y x =
     (if 0 < x then arctan (y / x)
      else if x < 0 then (if 0 \<le> y then arctan (y / x) + pi else arctan (y / x) - pi)
      else if 0 < y then pi / 2
      else if y < 0 then - (pi / 2)
      else 0)"

text \<open>
  \<open>Particle.reset(w, h)\<close>: three draws, for the angle, the radius and the speed, in this
  order. Position and velocity are overwritten, the size is kept.
\<close>

definition reset :: "nat \<Rightarrow> nat \<Rightarrow> random \<Rightarrow> nat \<Rightarrow> Particle \<Rightarrow> Particle \<times> nat" where
  "reset w h rnd k p =
     (let angle = rnd k * pi * 2;
          r = real (min w h) / 2 + rnd (k + 1) * 50;
          speed = rnd (k + 2) * 2 + 1
      in (p\<lparr>px := real w / 2 + cos angle * r,
            py := real h / 2 + sin angle * r,
            pvx := - sin angle * speed,
            pvy := cos angle * speed\<rparr>, k + 3))"

text \<open>
  The constructor of \<open>Particle\<close>: a draw for the size, \<open>reset\<close>, then two draws that
  move the particle to a random point of the surface.
\<close>

definition new_Particle :: "nat \<Rightarrow> nat \<Rightarrow> random \<Rightarrow> nat \<Rightarrow> Particle \<times> nat" where
  "new_Particle w h rnd k =
     (let p0 = \<lparr>px = 0, py = 0, pvx = 0, pvy = 0, psize = rnd k * 2 + 1\<rparr>;
          (p1, k1) = reset w h rnd (k + 1) p0
      in (p1\<lparr>px := rnd k1 * real w, py := rnd (k1 + 1) * real h\<rparr>, k1 + 2))"

subsection \<open>One particle in \<open>update\<close>\<close>

text \<open>\<open>dist\<close>: the distance to the centre of the surface, taken before anything moves.\<close>

definition center_dist :: "nat \<Rightarrow> nat \<Rightarrow> Particle \<Rightarrow> real" where
  "center_dist w h p =
     (let dx = real w / 2 - px p; dy = real h / 2 - py p in sqrt (dx * dx + dy * dy))"

text \<open>
  Attraction to the centre:
  \<^verbatim>\<open>const force = 1000 / (dist + 50); const angle = Math.atan2(dy, dx);
  p.vx += Math.cos(angle) * force * 0.5; p.vy += Math.sin(angle) * force * 0.5;\<close>
\<close>

definition attraction :: "nat \<Rightarrow> nat \<Rightarrow> Particle \<Rightarrow> Particle" where
  "attraction w h p =
     (let dx = real w / 2 - px p;
          dy = real h / 2 - py p;
          dist = sqrt (dx * dx + dy * dy);
          force = 1000 / (dist + 50);
          angle = atan2 dy dx
      in p\<lparr>pvx := pvx p + cos angle * force * 0.5, pvy := pvy p + sin angle * force * 0.5\<rparr>)"

text \<open>
  Mouse repulsion:
  \<^verbatim>\<open>if (mDist < 200) { const repForce = (200 - mDist) * 0.05;
      p.vx -= (mdx / mDist) * repForce; p.vy -= (mdy / mDist) * repForce; }\<close>
  With the pointer exactly on the particle, \<open>mdx / mDist\<close> is \<open>0 / 0\<close>: both velocity
  components become \<open>NaN\<close>, and so does the position in the next statements. The result
  is then \<open>None\<close>.
\<close>

definition repulsion :: "real \<times> real \<Rightarrow> Particle \<Rightarrow> Particle option" where
  "repulsion m p =
     (let mdx = fst m - px p;
          mdy = snd m - py p;
          mDist = sqrt (mdx * mdx + mdy * mdy)
      in if mDist < 200 then
           (if mDist = 0 then None
            else let repForce = (200 - mDist) * 0.05
                 in Some (p\<lparr>pvx := pvx p - (mdx / mDist) * repForce,
                            pvy := pvy p - (mdy / mDist) * repForce\<rparr>))
         else Some p)"

text \<open>Friction (\<open>p.vx *= 0.95; p.vy *= 0.95\<close>) and the position update.\<close>

definition friction :: "Particle \<Rightarrow> Particle" where
  "friction p = p\<lparr>pvx := pvx p * 0.95, pvy := pvy p * 0.95\<rparr>"

definition move :: "Particle \<Rightarrow> Particle" where
  "move p = p\<lparr>px := px p + pvx p, py := py p + pvy p\<rparr>"

text \<open>The test of the second reset, "lost in space".\<close>

definition lost :: "nat \<Rightarrow> nat \<Rightarrow> Particle \<Rightarrow> bool" where
  "lost w h p \<longleftrightarrow>
     px p < - 200 \<or> px p > real w + 200 \<or> py p < - 200 \<or> py p > real h + 200"

text \<open>
  The body of \<open>this.particles.forEach\<close> for a particle with finite fields. The first reset
  tests \<open>dist\<close>, computed from the position before the move; the second tests the
  position as it is then, after the move or after the first reset. A \<open>NaN\<close> position
  fails both comparisons of the second test, and \<open>reset\<close> overwrites every field that
  could be \<open>NaN\<close>.
\<close>

definition update_particle ::
  "nat \<Rightarrow> nat \<Rightarrow> real \<times> real \<Rightarrow> random \<Rightarrow> nat \<Rightarrow> Particle \<Rightarrow> Particle option \<times> nat" where
  "update_particle w h m rnd k p =
     (let dist = center_dist w h p;
          moved = map_option (move \<circ> friction) (repulsion m (attraction w h p));
          (q, k1) = (if dist < 10 then (case reset w h rnd k p of (p', k') \<Rightarrow> (Some p', k'))
                     else (moved, k))
      in case q of
           None \<Rightarrow> (None, k1)
         | Some p5 \<Rightarrow>
             if lost w h p5 then (case reset w h rnd k1 p5 of (p', k') \<Rightarrow> (Some p', k'))
             else (Some p5, k1))"

text \<open>
  \<open>update\<close>: every particle in turn. A particle that is all \<open>NaN\<close> stays so: every
  comparison with \<open>NaN\<close> is false, so neither reset is taken.
\<close>

fun update_particles ::
  "nat \<Rightarrow> nat \<Rightarrow> real \<times> real \<Rightarrow> random \<Rightarrow> nat \<Rightarrow> Particle option list \<Rightarrow> Particle option list \<times> nat" where
  "update_particles w h m rnd k [] = ([], k)"
| "update_particles w h m rnd k (p # ps) =
     (case (case p of None \<Rightarrow> (None, k) | Some q \<Rightarrow> update_particle w h m rnd k q) of
        (p', k1) \<Rightarrow>
          (case update_particles w h m rnd k1 ps of (ps', k2) \<Rightarrow> (p' # ps', k2)))"

definition pa_update :: "random \<Rightarrow> nat \<Rightarrow> ParticleAttractor \<Rightarrow> ParticleAttractor \<times> nat" where
  "pa_update rnd k s =
     (case update_particles (width s) (height s) (mouse s) rnd k (particles s) of
        (ps, k') \<Rightarrow> (s\<lparr>particles := ps\<rparr>, k'))"

text \<open>\<open>n\<close> successive frames of one particle under a resting pointer.\<close>

fun simulate :: "nat \<Rightarrow> nat \<Rightarrow> nat \<Rightarrow> real \<times> real \<Rightarrow> random \<Rightarrow> Particle option \<times> nat \<Rightarrow> Particle option \<times> nat" where
  "simulate 0 w h m rnd pk = pk"
| "simulate (Suc n) w h m rnd pk =
     (case simulate n w h m rnd pk of
        (None, k) \<Rightarrow> (None, k)
      | (Some p, k) \<Rightarrow> update_particle w h m rnd k p)"

subsection \<open>Resize and pointer\<close>

fun createParticles :: "nat \<Rightarrow> nat \<Rightarrow> nat \<Rightarrow> random \<Rightarrow> nat \<Rightarrow> Particle option list \<times> nat" where
  "createParticles 0 w h rnd k = ([], k)"
| "createParticles (Suc n) w h rnd k =
     (case new_Particle w h rnd k of
        (p, k1) \<Rightarrow> (case createParticles n w h rnd k1 of (ps, k2) \<Rightarrow> (Some p # ps, k2)))"

definition pa_resize :: "Page \<Rightarrow> random \<Rightarrow> nat \<Rightarrow> ParticleAttractor \<Rightarrow> ParticleAttractor \<times> nat" where
  "pa_resize page rnd k s =
     (let sz = (case parentClient page of Some client \<Rightarrow> client | None \<Rightarrow> windowInner page);
          s1 = s\<lparr>canvas := (canvas s)\<lparr>cwidth := fst sz, cheight := snd sz\<rparr>\<rparr>;
          s2 = s1\<lparr>width := cwidth (canvas s1), height := cheight (canvas s1)\<rparr>;
          area = width s2 * height s2;
          s3 = s2\<lparr>particleCount := min 600 (area div 2000)\<rparr>
      in case createParticles (particleCount s3) (width s3) (height s3) rnd k of
           (ps, k') \<Rightarrow> (s3\<lparr>particles := ps\<rparr>, k'))"

definition pa_handleMouseMove :: "Page \<Rightarrow> MouseEvent \<Rightarrow> ParticleAttractor \<Rightarrow> ParticleAttractor" where
  "pa_handleMouseMove page e s =
     s\<lparr>mouse := (clientX e - fst (boundingRect page), clientY e - snd (boundingRect page))\<rparr>"

subsection \<open>The particle step as the specification words it\<close>

text \<open>
  The distance to the pointer; the attraction term (\<open>cos\<close> and \<open>sin\<close> of the angle to the
  centre, times half the force \<open>1000 / (distance to centre + 50)\<close>); the repulsion term
  (the unit vector toward the pointer times \<open>(200 - distance) * 0.05\<close>, inside 200 of
  the pointer); and the step made of the four changes in order: add the attraction,
  subtract the repulsion, multiply by 0.95, add the velocity to the position.
\<close>

definition pointer_dist :: "real \<times> real \<Rightarrow> Particle \<Rightarrow> real" where
  "pointer_dist m p = sqrt ((fst m - px p)\<^sup>2 + (snd m - py p)\<^sup>2)"

definition pull :: "nat \<Rightarrow> nat \<Rightarrow> Particle \<Rightarrow> real \<times> real" where
  "pull w h p =
     (let force = 1000 / (center_dist w h p + 50);
          angle = atan2 (real h / 2 - py p) (real w / 2 - px p)
      in (cos angle * force * 0.5, sin angle * force * 0.5))"

definition push :: "real \<times> real \<Rightarrow> Particle \<Rightarrow> real \<times> real" where
  "push m p =
     (let d = pointer_dist m p
      in if d < 200 then ((fst m - px p) / d * ((200 - d) * 0.05),
                          (snd m - py p) / d * ((200 - d) * 0.05))
         else (0, 0))"

definition stepped :: "nat \<Rightarrow> nat \<Rightarrow> real \<times> real \<Rightarrow> Particle \<Rightarrow> Particle" where
  "stepped w h m p =
     (let vx' = (pvx p + fst (pull w h p) - fst (push m p)) * 0.95;
          vy' = (pvy p + snd (pull w h p) - snd (push m p)) * 0.95
      in p\<lparr>pvx := vx', pvy := vy', px := px p + vx', py := py p + vy'\<rparr>)"

text \<open>
  The reset policy: the point at angle \<open>theta\<close> on the circle of radius \<open>r\<close> round the
  centre of the surface, with the velocity \<open>speed * (- sin theta, cos theta)\<close>.
\<close>

definition ring :: "nat \<Rightarrow> nat \<Rightarrow> real \<Rightarrow> real \<Rightarrow> real \<Rightarrow> Particle \<Rightarrow> Particle" where
  "ring w h theta r speed p =
     p\<lparr>px := real w / 2 + cos theta * r, py := real h / 2 + sin theta * r,
       pvx := - sin theta * speed, pvy := cos theta * speed\<rparr>"

definition speed_of :: "Particle \<Rightarrow> real" where
  "speed_of p = sqrt ((pvx p)\<^sup>2 + (pvy p)\<^sup>2)"

text \<open>The pointer's position before the first pointer event.\<close>

definition far_off :: "real \<times> real" where
  "far_off = (- 1000, - 1000)"

text \<open>Particles and a stream of draws for concrete runs.\<close>

definition particle0 :: Particle where
  "particle0 = \<lparr>px = 130, py = 140, pvx = 0, pvy = 0, psize = 2\<rparr>"


definition half :: random where
  "half n = 1 / 2"

section \<open>The node graph (NetworkGraph)\<close>

record Node =
  nx :: real
  ny :: real
  nvx :: real
  nvy :: real
  nsize :: real

record NetworkGraph = Visual +
  ng_particles :: "Node list"
  ng_particleCount :: nat
  ng_mouse :: "real \<times> real"
  connectionDistance :: nat

text \<open>
  \<open>ng_particles\<close>, \<open>ng_particleCount\<close> and \<open>ng_mouse\<close> are the fields \<open>particles\<close>,
  \<open>particleCount\<close> and \<open>mouse\<close> of the class, prefixed apart from those of
  \<open>ParticleAttractor\<close>.

  What \<open>draw\<close> sends to the 2D context, one entry per painted shape: \<open>clearRect\<close>; a
  stroked path \<open>moveTo\<close>, \<open>lineTo\<close> with the stroke style at the time; a filled
  \<open>arc\<close> with the fill style at the time. A stroke style \<open>hexToRgba(hex, alpha)\<close> is
  kept as the pair of its arguments: the parsing of the three channels is not modelled.
\<close>

datatype rgba = Rgba string real

datatype shape =
    ClearRect nat nat
  | Line "real \<times> real" "real \<times> real" rgba
  | Circle "real \<times> real" real string

definition hexToRgba :: "string \<Rightarrow> real \<Rightarrow> rgba" where
  "hexToRgba hex alpha = Rgba hex alpha"

text \<open>
  The body of the inner loop of \<open>draw\<close>, for the nodes \<open>p1 = particles[i]\<close> and
  \<open>p2 = particles[j]\<close>:
  \<^verbatim>\<open>const dist = Math.sqrt(dx * dx + dy * dy);
  if (dist < this.connectionDistance) {
      const opacity = 1 - (dist / this.connectionDistance);
      this.ctx.strokeStyle = this.hexToRgba(this.color, opacity * 0.5); ... stroke(); }\<close>
\<close>

definition connect :: "NetworkGraph \<Rightarrow> Node \<Rightarrow> Node \<Rightarrow> shape list" where
  "connect s p1 p2 =
     (let dx = nx p1 - nx p2;
          dy = ny p1 - ny p2;
          dist = sqrt (dx * dx + dy * dy)
      in if dist < real (connectionDistance s) then
           (let opacity = 1 - dist / real (connectionDistance s)
            in [Line (nx p1, ny p1) (nx p2, ny p2) (hexToRgba (color s) (opacity * 0.5))])
         else [])"

text \<open>The connection of a node to the mouse, after the inner loop.\<close>

definition connect_mouse :: "NetworkGraph \<Rightarrow> Node \<Rightarrow> shape list" where
  "connect_mouse s p1 =
     (let mdx = fst (ng_mouse s) - nx p1;
          mdy = snd (ng_mouse s) - ny p1;
          mDist = sqrt (mdx * mdx + mdy * mdy)
      in if mDist < real (connectionDistance s) + 50 then
           (let opacity = 1 - mDist / (real (connectionDistance s) + 50)
            in [Line (nx p1, ny p1) (ng_mouse s) (hexToRgba (color s) (opacity * 0.8))])
         else [])"

text \<open>
  The loops \<open>for (let j = i + 1; j < this.particles.length; j++)\<close> and
  \<open>for (let i = 0; i < this.particles.length; i++)\<close>, over the indices they visit. Every
  index they read is below the length, so \<open>this.particles[i]\<close> is \<open>ng_particles s ! i\<close>.
\<close>

fun draw_j :: "NetworkGraph \<Rightarrow> nat \<Rightarrow> nat list \<Rightarrow> shape list" where
  "draw_j s i [] = []"
| "draw_j s i (j # js) = connect s (ng_particles s ! i) (ng_particles s ! j) @ draw_j s i js"

fun draw_i :: "NetworkGraph \<Rightarrow> nat list \<Rightarrow> shape list" where
  "draw_i s [] = []"
| "draw_i s (i # is) =
     draw_j s i [i + 1..<length (ng_particles s)] @ connect_mouse s (ng_particles s ! i) @ draw_i s is"

text \<open>\<open>draw\<close>: the clear, the connections, then the nodes.\<close>

definition draw :: "NetworkGraph \<Rightarrow> shape list" where
  "draw s =
     ClearRect (width s) (height s)
     # draw_i s [0..<length (ng_particles s)]
     @ map (\<lambda>p. Circle (nx p, ny p) (nsize p) (color s)) (ng_particles s)"

text \<open>\<open>update\<close>: move, and turn the velocity round past an edge.\<close>

definition bounce :: "nat \<Rightarrow> nat \<Rightarrow> Node \<Rightarrow> Node" where
  "bounce w h p =
     (let p1 = p\<lparr>nx := nx p + nvx p\<rparr>;
          p2 = p1\<lparr>ny := ny p1 + nvy p1\<rparr>;
          p3 = (if nx p2 < 0 \<or> nx p2 > real w then p2\<lparr>nvx := nvx p2 * - 1\<rparr> else p2)
      in if ny p3 < 0 \<or> ny p3 > real h then p3\<lparr>nvy := nvy p3 * - 1\<rparr> else p3)"

definition ng_update :: "NetworkGraph \<Rightarrow> NetworkGraph" where
  "ng_update s = s\<lparr>ng_particles := map (bounce (width s) (height s)) (ng_particles s)\<rparr>"

text \<open>The constructor of \<open>Node\<close>: five draws.\<close>

definition new_Node :: "nat \<Rightarrow> nat \<Rightarrow> random \<Rightarrow> nat \<Rightarrow> Node \<times> nat" where
  "new_Node w h rnd k =
     (let speed = 0.5
      in (\<lparr>nx = rnd k * real w, ny = rnd (k + 1) * real h,
           nvx = (rnd (k + 2) - 0.5) * speed, nvy = (rnd (k + 3) - 0.5) * speed,
           nsize = rnd (k + 4) * 2 + 1.5\<rparr>, k + 5))"

fun createNodes :: "nat \<Rightarrow> nat \<Rightarrow> nat \<Rightarrow> random \<Rightarrow> nat \<Rightarrow> Node list \<times> nat" where
  "createNodes 0 w h rnd k = ([], k)"
| "createNodes (Suc n) w h rnd k =
     (case new_Node w h rnd k of
        (p, k1) \<Rightarrow> (case createNodes n w h rnd k1 of (ps, k2) \<Rightarrow> (p # ps, k2)))"

definition ng_resize :: "Page \<Rightarrow> random \<Rightarrow> nat \<Rightarrow> NetworkGraph \<Rightarrow> NetworkGraph \<times> nat" where
  "ng_resize page rnd k s =
     (let sz = (case parentClient page of Some client \<Rightarrow> client | None \<Rightarrow> windowInner page);
          s1 = s\<lparr>canvas := (canvas s)\<lparr>cwidth := fst sz, cheight := snd sz\<rparr>\<rparr>;
          s2 = s1\<lparr>width := cwidth (canvas s1), height := cheight (canvas s1)\<rparr>;
          area = width s2 * height s2;
          isMobile = (width s2 < 768);
          s3 = (if isMobile
                then s2\<lparr>ng_particleCount := min 50 (area div 10000), connectionDistance := 120\<rparr>
                else s2\<lparr>ng_particleCount := min 150 (area div 6000), connectionDistance := 180\<rparr>);
          s4 = (if ng_particleCount s3 < 20 then s3\<lparr>ng_particleCount := 20\<rparr> else s3)
      in case createNodes (ng_particleCount s4) (width s4) (height s4) rnd k of
           (ps, k') \<Rightarrow> (s4\<lparr>ng_particles := ps\<rparr>, k'))"

definition ng_handleMouseMove :: "Page \<Rightarrow> MouseEvent \<Rightarrow> NetworkGraph \<Rightarrow> NetworkGraph" where
  "ng_handleMouseMove page e s =
     s\<lparr>ng_mouse := (clientX e - fst (boundingRect page), clientY e - snd (boundingRect page))\<rparr>"

subsection \<open>The connections as the specification words them\<close>

text \<open>
  The Euclidean distances between two nodes and between a node and the pointer, by index;
  the two alpha formulas; the line of a pair and of a node and the pointer; and
  \<open>lines_of s i\<close>, everything the specification has drawn for node \<open>i\<close>: one line to
  each later node closer than the threshold, then one to the pointer when it is closer
  than the threshold plus 50.
\<close>

definition node_dist :: "NetworkGraph \<Rightarrow> nat \<Rightarrow> nat \<Rightarrow> real" where
  "node_dist s i j =
     sqrt ((nx (ng_particles s ! i) - nx (ng_particles s ! j))\<^sup>2 +
           (ny (ng_particles s ! i) - ny (ng_particles s ! j))\<^sup>2)"

definition mouse_dist :: "NetworkGraph \<Rightarrow> nat \<Rightarrow> real" where
  "mouse_dist s i =
     sqrt ((fst (ng_mouse s) - nx (ng_particles s ! i))\<^sup>2 +
           (snd (ng_mouse s) - ny (ng_particles s ! i))\<^sup>2)"

definition position :: "NetworkGraph \<Rightarrow> nat \<Rightarrow> real \<times> real" where
  "position s i = (nx (ng_particles s ! i), ny (ng_particles s ! i))"

definition peer_alpha :: "real \<Rightarrow> real \<Rightarrow> real" where
  "peer_alpha threshold d = (1 - d / threshold) * 0.5"

definition mouse_alpha :: "real \<Rightarrow> real \<Rightarrow> real" where
  "mouse_alpha threshold d = (1 - d / (threshold + 50)) * 0.8"

definition peer_line :: "NetworkGraph \<Rightarrow> nat \<Rightarrow> nat \<Rightarrow> shape" where
  "peer_line s i j =
     Line (position s i) (position s j)
       (Rgba (color s) (peer_alpha (real (connectionDistance s)) (node_dist s i j)))"

definition mouse_line :: "NetworkGraph \<Rightarrow> nat \<Rightarrow> shape" where
  "mouse_line s i =
     Line (position s i) (ng_mouse s)
       (Rgba (color s) (mouse_alpha (real (connectionDistance s)) (mouse_dist s i)))"

definition is_line :: "shape \<Rightarrow> bool" where
  "is_line c = (case c of Line a b st \<Rightarrow> True | _ \<Rightarrow> False)"

definition lines_of :: "NetworkGraph \<Rightarrow> nat \<Rightarrow> shape list" where
  "lines_of s i =
     concat (map (\<lambda>j. if node_dist s i j < real (connectionDistance s) then [peer_line s i j] else [])
               [i + 1..<length (ng_particles s)])
     @ (if mouse_dist s i < real (connectionDistance s) + 50 then [mouse_line s i] else [])"

definition example_graph :: NetworkGraph where
  "example_graph =
     \<lparr>canvas = \<lparr>cwidth = 1000, cheight = 800, context2d = Some 0\<rparr>,
      ctx = 0, width = 1000, height = 800, animationId = None, color = ''#8b5cf6'',
      ng_particles =
        [\<lparr>nx = 0, ny = 0, nvx = 0, nvy = 0, nsize = 2\<rparr>,
         \<lparr>nx = 30, ny = 40, nvx = 0, nvy = 0, nsize = 2\<rparr>,
         \<lparr>nx = 300, ny = 400, nvx = 0, nvy = 0, nsize = 2\<rparr>],
      ng_particleCount = 3, ng_mouse = (- 1000, - 1000), connectionDistance = 180\<rparr>"

section \<open>Construction and the animation loop\<close>

subsection \<open>The window: animation frame requests, listeners, \<open>Math.random\<close>\<close>

text \<open>
  The two listeners an instance registers are its bound methods \<open>this.resize\<close> and
  \<open>this.handleMouseMove\<close>; the constructor binds them once, so \<open>addEventListener\<close> and
  \<open>removeEventListener\<close> see the same function.
\<close>

datatype handler = ResizeHandler | MouseMoveHandler

text \<open>
  The part of the window an instance works with: the event listener list, the handles of
  the animation frame callbacks that are scheduled (each one is \<open>this.loop\<close>), the
  animation frame callback identifier (the last handle given out), and the number of
  \<open>Math.random()\<close> calls made so far.
\<close>

record Window =
  listeners :: "(string \<times> handler) list"
  frameRequests :: "nat list"
  lastHandle :: nat
  randomCalls :: nat

text \<open>
  \<open>requestAnimationFrame\<close> increments the identifier and returns it, so a handle is
  never 0; \<open>cancelAnimationFrame\<close> removes the callback with that handle.
\<close>

definition requestAnimationFrame :: "Window \<Rightarrow> nat \<times> Window" where
  "requestAnimationFrame w =
     (let h = lastHandle w + 1
      in (h, w\<lparr>lastHandle := h, frameRequests := frameRequests w @ [h]\<rparr>))"

definition cancelAnimationFrame :: "nat \<Rightarrow> Window \<Rightarrow> Window" where
  "cancelAnimationFrame h w = w\<lparr>frameRequests := removeAll h (frameRequests w)\<rparr>"

text \<open>
  \<open>addEventListener\<close> does nothing when the same listener is registered for the same
  event; \<open>removeEventListener\<close> does nothing when it is not registered.
\<close>

definition addEventListener :: "string \<Rightarrow> handler \<Rightarrow> Window \<Rightarrow> Window" where
  "addEventListener ty f w =
     (if (ty, f) \<in> set (listeners w) then w else w\<lparr>listeners := listeners w @ [(ty, f)]\<rparr>)"

definition removeEventListener :: "string \<Rightarrow> handler \<Rightarrow> Window \<Rightarrow> Window" where
  "removeEventListener ty f w = w\<lparr>listeners := removeAll (ty, f) (listeners w)\<rparr>"

text \<open>The truth value of \<open>this.animationId\<close>: \<open>null\<close> and \<open>0\<close> are falsy.\<close>

definition truthy :: "nat option \<Rightarrow> bool" where
  "truthy a \<longleftrightarrow> (case a of None \<Rightarrow> False | Some h \<Rightarrow> h \<noteq> 0)"

subsection \<open>What differs between the three classes\<close>

text \<open>
  The three classes have the same \<open>loop\<close>, \<open>start\<close>, \<open>stop\<close>, \<open>init\<close> and \<open>destroy\<close>
  up to the methods they call: the first statements of \<open>init\<close> (\<open>createGrid(); seed()\<close>
  or \<open>resize()\<close>), \<open>update\<close>, \<open>resize\<close> and \<open>handleMouseMove\<close>. Each takes the random
  stream and the number of draws made, and returns the new state and number. \<open>draw\<close>
  paints the canvas and changes no field, so it is no part of the state's step.
\<close>

record 's Methods =
  m_setup :: "Page \<Rightarrow> random \<Rightarrow> nat \<Rightarrow> 's \<Rightarrow> error + 's \<times> nat"
  m_update :: "random \<Rightarrow> nat \<Rightarrow> 's \<Rightarrow> error + 's \<times> nat"
  m_resize :: "Page \<Rightarrow> random \<Rightarrow> nat \<Rightarrow> 's \<Rightarrow> error + 's \<times> nat"
  m_handleMouseMove :: "Page \<Rightarrow> MouseEvent \<Rightarrow> random \<Rightarrow> nat \<Rightarrow> 's \<Rightarrow> error + 's \<times> nat"

definition GameOfLife_methods :: "GameOfLife Methods" where
  "GameOfLife_methods =
     \<lparr>m_setup = (\<lambda>page rnd k s. seed rnd k (createGrid s)),
      m_update = (\<lambda>rnd k s. case update s of Inl e \<Rightarrow> Inl e | Inr s' \<Rightarrow> Inr (s', k)),
      m_resize = resize,
      m_handleMouseMove = handleMouseMove\<rparr>"

definition ParticleAttractor_methods :: "ParticleAttractor Methods" where
  "ParticleAttractor_methods =
     \<lparr>m_setup = (\<lambda>page rnd k s. Inr (pa_resize page rnd k s)),
      m_update = (\<lambda>rnd k s. Inr (pa_update rnd k s)),
      m_resize = (\<lambda>page rnd k s. Inr (pa_resize page rnd k s)),
      m_handleMouseMove = (\<lambda>page e rnd k s. Inr (pa_handleMouseMove page e s, k))\<rparr>"

definition NetworkGraph_methods :: "NetworkGraph Methods" where
  "NetworkGraph_methods =
     \<lparr>m_setup = (\<lambda>page rnd k s. Inr (ng_resize page rnd k s)),
      m_update = (\<lambda>rnd k s. Inr (ng_update s, k)),
      m_resize = (\<lambda>page rnd k s. Inr (ng_resize page rnd k s)),
      m_handleMouseMove = (\<lambda>page e rnd k s. Inr (ng_handleMouseMove page e s, k))\<rparr>"

subsection \<open>\<open>loop\<close>, \<open>start\<close>, \<open>stop\<close>, \<open>init\<close>, \<open>destroy\<close>\<close>

text \<open>
  \<open>loop\<close>: \<open>this.update(); this.draw(); this.animationId = requestAnimationFrame(this.loop)\<close>.
  An exception in \<open>update\<close> leaves the method before the request.
\<close>

definition loop ::
  "('a Visual_scheme) Methods \<Rightarrow> random \<Rightarrow> 'a Visual_scheme \<times> Window \<Rightarrow> error + 'a Visual_scheme \<times> Window" where
  "loop M rnd sw =
     (case sw of (s, w) \<Rightarrow>
        (case m_update M rnd (randomCalls w) s of
           Inl e \<Rightarrow> Inl e
         | Inr (s1, k) \<Rightarrow>
             (case requestAnimationFrame (w\<lparr>randomCalls := k\<rparr>) of
                (h, w1) \<Rightarrow> Inr (s1\<lparr>animationId := Some h\<rparr>, w1))))"

text \<open>\<open>start\<close>: \<open>if (!this.animationId) this.loop()\<close>.\<close>

definition start ::
  "('a Visual_scheme) Methods \<Rightarrow> random \<Rightarrow> 'a Visual_scheme \<times> Window \<Rightarrow> error + 'a Visual_scheme \<times> Window" where
  "start M rnd sw = (if \<not> truthy (animationId (fst sw)) then loop M rnd sw else Inr sw)"

text \<open>
  \<open>stop\<close>: \<open>if (this.animationId) { cancelAnimationFrame(this.animationId); this.animationId = null; }\<close>.
\<close>

definition stop :: "'a Visual_scheme \<times> Window \<Rightarrow> 'a Visual_scheme \<times> Window" where
  "stop sw =
     (case sw of (s, w) \<Rightarrow>
        (case animationId s of
           None \<Rightarrow> (s, w)
         | Some h \<Rightarrow>
             if h \<noteq> 0 then (s\<lparr>animationId := None\<rparr>, cancelAnimationFrame h w) else (s, w)))"

text \<open>\<open>init\<close>: the class's setup, \<open>start\<close>, then the two listeners.\<close>

definition init ::
  "('a Visual_scheme) Methods \<Rightarrow> Page \<Rightarrow> random \<Rightarrow> 'a Visual_scheme \<times> Window \<Rightarrow> error + 'a Visual_scheme \<times> Window" where
  "init M page rnd sw =
     (case sw of (s, w) \<Rightarrow>
        (case m_setup M page rnd (randomCalls w) s of
           Inl e \<Rightarrow> Inl e
         | Inr (s1, k) \<Rightarrow>
             (case start M rnd (s1, w\<lparr>randomCalls := k\<rparr>) of
                Inl e \<Rightarrow> Inl e
              | Inr (s2, w2) \<Rightarrow>
                  Inr (s2, addEventListener ''mousemove'' MouseMoveHandler
                             (addEventListener ''resize'' ResizeHandler w2)))))"

text \<open>\<open>destroy\<close>: \<open>stop\<close>, then the two listeners are removed.\<close>

definition destroy :: "'a Visual_scheme \<times> Window \<Rightarrow> 'a Visual_scheme \<times> Window" where
  "destroy sw =
     (case stop sw of (s, w) \<Rightarrow>
        (s, removeEventListener ''mousemove'' MouseMoveHandler
              (removeEventListener ''resize'' ResizeHandler w)))"

subsection \<open>What the browser does\<close>

text \<open>
  An animation frame: the scheduled callbacks are taken off the list and run in order;
  each is \<open>this.loop\<close>. A request made while they run is for the next frame.
\<close>

fun run_callbacks ::
  "('a Visual_scheme) Methods \<Rightarrow> random \<Rightarrow> nat list \<Rightarrow> 'a Visual_scheme \<times> Window \<Rightarrow> error + 'a Visual_scheme \<times> Window" where
  "run_callbacks M rnd [] sw = Inr sw"
| "run_callbacks M rnd (h # hs) sw =
     (case loop M rnd sw of
        Inl e \<Rightarrow> Inl e
      | Inr sw' \<Rightarrow> run_callbacks M rnd hs sw')"

definition animation_frame ::
  "('a Visual_scheme) Methods \<Rightarrow> random \<Rightarrow> 'a Visual_scheme \<times> Window \<Rightarrow> error + 'a Visual_scheme \<times> Window" where
  "animation_frame M rnd sw =
     (case sw of (s, w) \<Rightarrow> run_callbacks M rnd (frameRequests w) (s, w\<lparr>frameRequests := []\<rparr>))"

text \<open>A \<open>resize\<close> or \<open>mousemove\<close> event runs the handler when it is registered.\<close>

definition dispatch_resize ::
  "('a Visual_scheme) Methods \<Rightarrow> Page \<Rightarrow> random \<Rightarrow> 'a Visual_scheme \<times> Window \<Rightarrow> error + 'a Visual_scheme \<times> Window" where
  "dispatch_resize M page rnd sw =
     (case sw of (s, w) \<Rightarrow>
        if (''resize'', ResizeHandler) \<in> set (listeners w) then
          (case m_resize M page rnd (randomCalls w) s of
             Inl e \<Rightarrow> Inl e
           | Inr (s1, k) \<Rightarrow> Inr (s1, w\<lparr>randomCalls := k\<rparr>))
        else Inr (s, w))"

definition dispatch_mousemove ::
  "('a Visual_scheme) Methods \<Rightarrow> Page \<Rightarrow> MouseEvent \<Rightarrow> random \<Rightarrow> 'a Visual_scheme \<times> Window \<Rightarrow> error + 'a Visual_scheme \<times> Window" where
  "dispatch_mousemove M page e rnd sw =
     (case sw of (s, w) \<Rightarrow>
        if (''mousemove'', MouseMoveHandler) \<in> set (listeners w) then
          (case m_handleMouseMove M page e rnd (randomCalls w) s of
             Inl e \<Rightarrow> Inl e
           | Inr (s1, k) \<Rightarrow> Inr (s1, w\<lparr>randomCalls := k\<rparr>))
        else Inr (s, w))"

text \<open>
  Everything that can happen to an instance after construction: the page calls one of
  its public methods, or the browser delivers a frame or an event.
\<close>

datatype action =
    Init Page
  | Destroy
  | Start
  | Stop
  | Frame
  | Resized Page
  | MouseMoved Page MouseEvent

fun act ::
  "('a Visual_scheme) Methods \<Rightarrow> random \<Rightarrow> action \<Rightarrow> 'a Visual_scheme \<times> Window \<Rightarrow> error + 'a Visual_scheme \<times> Window" where
  "act M rnd (Init page) sw = init M page rnd sw"
| "act M rnd Destroy sw = Inr (destroy sw)"
| "act M rnd Start sw = start M rnd sw"
| "act M rnd Stop sw = Inr (stop sw)"
| "act M rnd Frame sw = animation_frame M rnd sw"
| "act M rnd (Resized page) sw = dispatch_resize M page rnd sw"
| "act M rnd (MouseMoved page e) sw = dispatch_mousemove M page e rnd sw"

fun run ::
  "('a Visual_scheme) Methods \<Rightarrow> random \<Rightarrow> action list \<Rightarrow> 'a Visual_scheme \<times> Window \<Rightarrow> error + 'a Visual_scheme \<times> Window" where
  "run M rnd [] sw = Inr sw"
| "run M rnd (a # as) sw =
     (case act M rnd a sw of
        Inl e \<Rightarrow> Inl e
      | Inr sw' \<Rightarrow> run M rnd as sw')"

subsection \<open>The constructors\<close>

text \<open>
  \<open>const context = canvas.getContext('2d'); if (!context) throw new Error(...)\<close>; then the
  fields are set and \<open>resize\<close> is called. The colour defaults to \<open>'#8b5cf6'\<close>.
\<close>

definition default_color :: "string option \<Rightarrow> string" where
  "default_color c = (case c of None \<Rightarrow> ''#8b5cf6'' | Some col \<Rightarrow> col)"

definition new_GameOfLife ::
  "Canvas \<Rightarrow> string option \<Rightarrow> Page \<Rightarrow> random \<Rightarrow> nat \<Rightarrow> error + GameOfLife \<times> nat" where
  "new_GameOfLife cv c page rnd k =
     (case context2d cv of
        None \<Rightarrow> Inl SurfaceInitError
      | Some context \<Rightarrow>
          resize page rnd k
            \<lparr>canvas = cv, ctx = context, width = cwidth cv, height = cheight cv,
             animationId = None, color = default_color c, cols = 0, rows = 0, grid = []\<rparr>)"

definition new_ParticleAttractor ::
  "Canvas \<Rightarrow> string option \<Rightarrow> Page \<Rightarrow> random \<Rightarrow> nat \<Rightarrow> error + ParticleAttractor \<times> nat" where
  "new_ParticleAttractor cv c page rnd k =
     (case context2d cv of
        None \<Rightarrow> Inl SurfaceInitError
      | Some context \<Rightarrow>
          Inr (pa_resize page rnd k
            \<lparr>canvas = cv, ctx = context, width = cwidth cv, height = cheight cv,
             animationId = None, color = default_color c,
             particles = [], particleCount = 200, mouse = (- 1000, - 1000)\<rparr>))"

definition new_NetworkGraph ::
  "Canvas \<Rightarrow> string option \<Rightarrow> Page \<Rightarrow> random \<Rightarrow> nat \<Rightarrow> error + NetworkGraph \<times> nat" where
  "new_NetworkGraph cv c page rnd k =
     (case context2d cv of
        None \<Rightarrow> Inl SurfaceInitError
      | Some context \<Rightarrow>
          Inr (ng_resize page rnd k
            \<lparr>canvas = cv, ctx = context, width = cwidth cv, height = cheight cv,
             animationId = None, color = default_color c,
             ng_particles = [], ng_particleCount = 60, ng_mouse = (- 1000, - 1000),
             connectionDistance = 150\<rparr>))"

subsection \<open>Invariants of the lifecycle\<close>

text \<open>
  The handle and the scheduled callbacks agree: with no handle nothing is scheduled, and
  a handle is not 0 and names the one scheduled callback.
\<close>

definition loop_inv :: "'a Visual_scheme \<times> Window \<Rightarrow> bool" where
  "loop_inv sw \<longleftrightarrow>
     (case animationId (fst sw) of
        None \<Rightarrow> frameRequests (snd sw) = []
      | Some h \<Rightarrow> h \<noteq> 0 \<and> frameRequests (snd sw) = [h])"

text \<open>
  A method of a class keeps an invariant \<open>I\<close> of its state when, from a state with
  \<open>I\<close>, it returns normally, \<open>I\<close> holds again, and the handle and the context are as
  before. A class is well behaved for \<open>I\<close> when its four methods are, and \<open>I\<close> does not
  depend on the handle.
\<close>

definition keeps :: "('a Visual_scheme \<Rightarrow> bool) \<Rightarrow> ('a Visual_scheme \<Rightarrow> error + 'a Visual_scheme \<times> nat) \<Rightarrow> bool" where
  "keeps I f \<longleftrightarrow>
     (\<forall>s. I s \<longrightarrow> (\<exists>s' k'. f s = Inr (s', k') \<and> I s' \<and>
                        animationId s' = animationId s \<and> ctx s' = ctx s))"

definition well_behaved :: "('a Visual_scheme) Methods \<Rightarrow> ('a Visual_scheme \<Rightarrow> bool) \<Rightarrow> bool" where
  "well_behaved M I \<longleftrightarrow>
     (\<forall>page rnd k. keeps I (m_setup M page rnd k)) \<and>
     (\<forall>rnd k. keeps I (m_update M rnd k)) \<and>
     (\<forall>page rnd k. keeps I (m_resize M page rnd k)) \<and>
     (\<forall>page e rnd k. keeps I (m_handleMouseMove M page e rnd k)) \<and>
     (\<forall>s a. I s \<longrightarrow> I (s\<lparr>animationId := a\<rparr>))"

definition good :: "('a Visual_scheme \<Rightarrow> bool) \<Rightarrow> nat \<Rightarrow> 'a Visual_scheme \<times> Window \<Rightarrow> bool" where
  "good I c sw \<longleftrightarrow> I (fst sw) \<and> loop_inv sw \<and> ctx (fst sw) = c"

text \<open>
  A window in which the instance has registered and scheduled nothing; an instance that
  is detached (no handle, no scheduled callback, neither listener registered, and a
  frame or an event from the browser changes nothing); and the lifecycle property of a
  class from a first state: after any sequence of calls and browser events, the handle is
  set exactly when a callback is scheduled, \<open>start\<close> with a handle and \<open>stop\<close> without
  one change nothing, \<open>destroy\<close> detaches, and the context is the first state's.
\<close>

definition fresh :: "Window \<Rightarrow> bool" where
  "fresh w \<longleftrightarrow> listeners w = [] \<and> frameRequests w = []"

definition detached ::
  "('a Visual_scheme) Methods \<Rightarrow> random \<Rightarrow> 'a Visual_scheme \<times> Window \<Rightarrow> bool" where
  "detached M rnd sw \<longleftrightarrow>
     animationId (fst sw) = None \<and> frameRequests (snd sw) = [] \<and>
     (''resize'', ResizeHandler) \<notin> set (listeners (snd sw)) \<and>
     (''mousemove'', MouseMoveHandler) \<notin> set (listeners (snd sw)) \<and>
     animation_frame M rnd sw = Inr sw \<and>
     (\<forall>page. dispatch_resize M page rnd sw = Inr sw) \<and>
     (\<forall>page e. dispatch_mousemove M page e rnd sw = Inr sw)"

definition lifecycle ::
  "('a Visual_scheme) Methods \<Rightarrow> random \<Rightarrow> 'a Visual_scheme \<times> Window \<Rightarrow> bool" where
  "lifecycle M rnd sw0 \<longleftrightarrow>
     (\<forall>as. \<exists>s w. run M rnd as sw0 = Inr (s, w) \<and>
        ((animationId s \<noteq> None) = (frameRequests w \<noteq> [])) \<and>
        (animationId s \<noteq> None \<longrightarrow> start M rnd (s, w) = Inr (s, w)) \<and>
        (animationId s = None \<longrightarrow> stop (s, w) = (s, w)) \<and>
        detached M rnd (destroy (s, w)) \<and>
        ctx s = ctx (fst sw0))"

text \<open>Canvases with and without a 2D context, and a window nothing is registered in.\<close>

definition canvas_ok :: Canvas where
  "canvas_ok = \<lparr>cwidth = 300, cheight = 150, context2d = Some 7\<rparr>"

definition canvas_none :: Canvas where
  "canvas_none = \<lparr>cwidth = 300, cheight = 150, context2d = None\<rparr>"

definition window0 :: Window where
  "window0 = \<lparr>listeners = [], frameRequests = [], lastHandle = 0, randomCalls = 0\<rparr>"

section \<open>Properties of the automaton step\<close>

lemma js_rem_nonneg: "0 \<le> a \<Longrightarrow> 0 < b \<Longrightarrow> js_rem a b = Some (a mod b)"
  by (simp add: js_rem_def sgn_if)

lemma js_rem_wrap:
  assumes "i < n" "-1 \<le> x"
  shows "js_rem (int i + x + int n) (int n) = Some (int (wrap (int i + x) n))"
proof -
  have "0 \<le> int i + x + int n" "0 < int n" using assms by auto
  then have "js_rem (int i + x + int n) (int n) = Some ((int i + x + int n) mod int n)"
    by (rule js_rem_nonneg)
  moreover have "(int i + x + int n) mod int n = (int i + x) mod int n" by simp
  moreover have "0 \<le> (int i + x) mod int n" using \<open>0 < int n\<close> by simp
  ultimately show ?thesis by (simp add: wrap_def)
qed

lemma wrap_less: "0 < n \<Longrightarrow> wrap k n < n"
  by (simp add: wrap_def nat_less_iff)

lemma read_wrapped:
  assumes "grid_ok s" "i < cols s" "j < rows s" "-1 \<le> x" "-1 \<le> y"
  shows "js_index (grid s) (js_rem (int i + x + int (cols s)) (int (cols s))) = Some (grid s ! wrap (int i + x) (cols s))"
    and "js_index (grid s ! wrap (int i + x) (cols s)) (js_rem (int j + y + int (rows s)) (int (rows s)))
           = Some (grid s ! wrap (int i + x) (cols s) ! wrap (int j + y) (rows s))"
proof -
  have c: "wrap (int i + x) (cols s) < cols s" using assms by (simp add: wrap_less)
  have r: "wrap (int j + y) (rows s) < rows s" using assms by (simp add: wrap_less)
  show "js_index (grid s) (js_rem (int i + x + int (cols s)) (int (cols s))) = Some (grid s ! wrap (int i + x) (cols s))"
    using assms c by (simp add: js_rem_wrap js_index_def js_slot_def grid_ok_def)
  have "length (grid s ! wrap (int i + x) (cols s)) = rows s"
    using assms(1) c by (simp add: grid_ok_def)
  then show "js_index (grid s ! wrap (int i + x) (cols s)) (js_rem (int j + y + int (rows s)) (int (rows s)))
           = Some (grid s ! wrap (int i + x) (cols s) ! wrap (int j + y) (rows s))"
    using assms r by (simp add: js_rem_wrap js_index_def js_slot_def)
qed

lemma count_y_ok:
  assumes "grid_ok s" "i < cols s" "j < rows s" "-1 \<le> x" "\<forall>y \<in> set ys. -1 \<le> y"
  shows "count_y s i j x ys n = Inr (n + (\<Sum>y \<leftarrow> ys. if x = 0 \<and> y = 0 then 0 else nb s i j x y))"
  using assms(5)
proof (induction ys arbitrary: n)
  case Nil
  then show ?case by simp
next
  case (Cons y ys)
  then have y: "-1 \<le> y" and ys: "\<forall>y \<in> set ys. -1 \<le> y" by auto
  show ?case
  proof (cases "x = 0 \<and> y = 0")
    case True
    then show ?thesis using Cons.IH [OF ys, of n] by simp
  next
    case False
    note r = read_wrapped [OF assms(1-4) y]
    have "count_y s i j x (y # ys) n = count_y s i j x ys (n + nb s i j x y)"
      by (simp only: count_y.simps False if_False Let_def r option.case nb_def)
    also have "\<dots> = Inr (n + nb s i j x y + (\<Sum>y \<leftarrow> ys. if x = 0 \<and> y = 0 then 0 else nb s i j x y))"
      by (rule Cons.IH [OF ys])
    also have "\<dots> = Inr (n + (\<Sum>y \<leftarrow> y # ys. if x = 0 \<and> y = 0 then 0 else nb s i j x y))"
      by (simp only: list.map sum_list.Cons False if_False add.assoc)
    finally show ?thesis .
  qed
qed

lemma count_x_ok:
  assumes "grid_ok s" "i < cols s" "j < rows s" "\<forall>x \<in> set xs. -1 \<le> x"
  shows "count_x s i j xs n =
         Inr (n + (\<Sum>x \<leftarrow> xs. \<Sum>y \<leftarrow> [-1, 0, 1]. if x = 0 \<and> y = 0 then 0 else nb s i j x y))"
  using assms(4)
proof (induction xs arbitrary: n)
  case Nil
  then show ?case by simp
next
  case (Cons x xs)
  then have x: "-1 \<le> x" and xs: "\<forall>x \<in> set xs. -1 \<le> x" by auto
  have "count_y s i j x [-1, 0, 1] n =
        Inr (n + (\<Sum>y \<leftarrow> [-1, 0, 1]. if x = 0 \<and> y = 0 then 0 else nb s i j x y))"
    by (rule count_y_ok [OF assms(1-3) x]) simp
  then show ?case
    using Cons.IH [OF xs] by (simp add: add.assoc)
qed

lemma count_neighbors_ok:
  assumes "grid_ok s" "i < cols s" "j < rows s"
  shows "count_neighbors s i j = Inr (live_neighbors s i j)"
proof -
  have "count_neighbors s i j =
        Inr (0 + (\<Sum>x \<leftarrow> [-1, 0, 1]. \<Sum>y \<leftarrow> [-1, 0, 1]. if x = 0 \<and> y = 0 then 0 else nb s i j x y))"
    unfolding count_neighbors_def by (rule count_x_ok [OF assms]) simp
  then show ?thesis by (simp add: live_neighbors_def nb_def)
qed

lemma grid_ok_col: "grid_ok s \<Longrightarrow> i < cols s \<Longrightarrow> length (grid s ! i) = rows s"
  by (simp add: grid_ok_def)

lemma shape_len: "map length xs = map length ys \<Longrightarrow> length xs = length ys"
  by (metis length_map)

lemma shape_col: "map length xs = map length ys \<Longrightarrow> i < length ys \<Longrightarrow> length (xs ! i) = length (ys ! i)"
  by (metis length_map nth_map)

lemma map_length_update:
  "i < length xs \<Longrightarrow> length c = length (xs ! i) \<Longrightarrow> map length (xs[i := c]) = map length xs"
  by (simp add: list_eq_iff_nth_eq nth_list_update)

lemma update_cell_ok:
  assumes "grid_ok s" "i < cols s" "j < rows s" "map length nxt = map length (grid s)"
  shows "update_cell s nxt i j = Inr (nxt[i := (nxt ! i)[j := next_state s i j]])"
proof -
  have len: "length nxt = cols s"
    using shape_len [OF assms(4)] assms(1) by (simp add: grid_ok_def)
  have "length (nxt ! i) = length (grid s ! i)"
    using shape_col [OF assms(4), of i] assms(1,2) by (simp add: grid_ok_def)
  then have col: "length (nxt ! i) = rows s"
    using assms by (simp add: grid_ok_col)
  have "get_cell (grid s) i j = Inr (grid s ! i ! j)"
    using assms by (simp add: get_cell_def grid_ok_col) (simp add: grid_ok_def)
  then show ?thesis
    using assms len col
    by (simp add: update_cell_def count_neighbors_ok set_cell_def next_state_def)
qed

lemma update_j_ok:
  assumes "grid_ok s" "i < cols s"
  shows "set js \<subseteq> {..<rows s} \<Longrightarrow> map length nxt = map length (grid s) \<Longrightarrow>
         \<exists>nxt'. update_j s i js nxt = Inr nxt' \<and> map length nxt' = map length (grid s) \<and>
           (\<forall>i' j'. nxt' ! i' ! j' =
              (if i' = i \<and> j' \<in> set js then next_state s i j' else nxt ! i' ! j'))"
proof (induction js arbitrary: nxt)
  case Nil
  then show ?case by simp
next
  case (Cons j js)
  then have j: "j < rows s" and js: "set js \<subseteq> {..<rows s}" by auto
  define n1 where "n1 = nxt[i := (nxt ! i)[j := next_state s i j]]"
  have step: "update_cell s nxt i j = Inr n1"
    unfolding n1_def by (rule update_cell_ok [OF assms j Cons.prems(2)])
  have len: "length nxt = cols s"
    using shape_len [OF Cons.prems(2)] assms(1) by (simp add: grid_ok_def)
  have coli: "length (nxt ! i) = rows s"
    using shape_col [OF Cons.prems(2), of i] assms by (simp add: grid_ok_def)
  have shape: "map length n1 = map length (grid s)"
    unfolding n1_def using Cons.prems(2) assms(2) len
    by (simp add: map_length_update)
  have n1: "n1 ! i' ! j' = (if i' = i \<and> j' = j then next_state s i j else nxt ! i' ! j')" for i' j'
    unfolding n1_def using len assms(2) coli j
    by (cases "i' = i"; cases "j' = j") simp_all
  from Cons.IH [OF js shape] obtain n2 where
    n2: "update_j s i js n1 = Inr n2" "map length n2 = map length (grid s)"
      "\<forall>i' j'. n2 ! i' ! j' = (if i' = i \<and> j' \<in> set js then next_state s i j' else n1 ! i' ! j')"
    by blast
  have "update_j s i (j # js) nxt = Inr n2" using step n2(1) by simp
  moreover have "\<forall>i' j'. n2 ! i' ! j' =
      (if i' = i \<and> j' \<in> set (j # js) then next_state s i j' else nxt ! i' ! j')"
  proof (intro allI)
    fix i' j'
    show "n2 ! i' ! j' =
      (if i' = i \<and> j' \<in> set (j # js) then next_state s i j' else nxt ! i' ! j')"
      using n2(3) [rule_format, of i' j'] n1 [of i' j'] by auto
  qed
  ultimately show ?case using n2(2) by blast
qed

lemma update_i_ok:
  assumes "grid_ok s"
  shows "set is \<subseteq> {..<cols s} \<Longrightarrow> map length nxt = map length (grid s) \<Longrightarrow>
         \<exists>nxt'. update_i s is nxt = Inr nxt' \<and> map length nxt' = map length (grid s) \<and>
           (\<forall>i' j'. nxt' ! i' ! j' =
              (if i' \<in> set is \<and> j' < rows s then next_state s i' j' else nxt ! i' ! j'))"
proof (induction "is" arbitrary: nxt)
  case Nil
  then show ?case by simp
next
  case (Cons i "is")
  then have i: "i < cols s" and rest: "set is \<subseteq> {..<cols s}" by auto
  have "set [0..<rows s] \<subseteq> {..<rows s}" by auto
  from update_j_ok [OF assms i this Cons.prems(2)] obtain n1 where
    n1: "update_j s i [0..<rows s] nxt = Inr n1" "map length n1 = map length (grid s)"
      "\<forall>i' j'. n1 ! i' ! j' = (if i' = i \<and> j' \<in> set [0..<rows s] then next_state s i j' else nxt ! i' ! j')"
    by blast
  from Cons.IH [OF rest n1(2)] obtain n2 where
    n2: "update_i s is n1 = Inr n2" "map length n2 = map length (grid s)"
      "\<forall>i' j'. n2 ! i' ! j' = (if i' \<in> set is \<and> j' < rows s then next_state s i' j' else n1 ! i' ! j')"
    by blast
  have "update_i s (i # is) nxt = Inr n2" using n1(1) n2(1) by simp
  moreover have "\<forall>i' j'. n2 ! i' ! j' =
      (if i' \<in> set (i # is) \<and> j' < rows s then next_state s i' j' else nxt ! i' ! j')"
  proof (intro allI)
    fix i' j'
    show "n2 ! i' ! j' =
      (if i' \<in> set (i # is) \<and> j' < rows s then next_state s i' j' else nxt ! i' ! j')"
      using n2(3) [rule_format, of i' j'] n1(3) [rule_format, of i' j'] by auto
  qed
  ultimately show ?case using n2(2) by blast
qed

lemma update_ok:
  assumes "grid_ok s"
  shows "\<exists>nxt. update s = Inr (s\<lparr>grid := nxt\<rparr>) \<and> map length nxt = map length (grid s) \<and>
           (\<forall>i < cols s. \<forall>j < rows s. nxt ! i ! j = next_state s i j)"
proof -
  have "set [0..<cols s] \<subseteq> {..<cols s}" by auto
  from update_i_ok [OF assms this refl] obtain nxt where
    n: "update_i s [0..<cols s] (grid s) = Inr nxt" "map length nxt = map length (grid s)"
      "\<forall>i' j'. nxt ! i' ! j' =
         (if i' \<in> set [0..<cols s] \<and> j' < rows s then next_state s i' j' else grid s ! i' ! j')"
    by blast
  have "update s = Inr (s\<lparr>grid := nxt\<rparr>)" using n(1) by (simp add: update_def)
  moreover have "\<forall>i < cols s. \<forall>j < rows s. nxt ! i ! j = next_state s i j"
  proof (intro allI impI)
    fix i j
    assume "i < cols s" "j < rows s"
    then show "nxt ! i ! j = next_state s i j"
      using n(3) [rule_format, of i j] by simp
  qed
  ultimately show ?thesis using n(2) by blast
qed

lemma grid_ok_shape:
  assumes "grid_ok s" "map length nxt = map length (grid s)"
  shows "grid_ok (s\<lparr>grid := nxt\<rparr>)"
proof -
  have l: "length nxt = cols s"
    using shape_len [OF assms(2)] assms(1) by (simp add: grid_ok_def)
  have im: "length ` set nxt = length ` set (grid s)"
    using assms(2) by (metis set_map)
  have "\<forall>c \<in> set nxt. length c = rows s"
  proof
    fix c assume "c \<in> set nxt"
    then have "length c \<in> length ` set (grid s)" using im by blast
    then obtain c' where "c' \<in> set (grid s)" "length c = length c'" by blast
    then show "length c = rows s" using assms(1) by (simp add: grid_ok_def)
  qed
  with l show ?thesis by (simp add: grid_ok_def)
qed

lemma blinker_ok: "grid_ok blinker"
  by (simp add: grid_ok_def blinker_def)

lemma blinker_counts:
  "live_neighbors blinker 1 2 = 3" "live_neighbors blinker 2 1 = 1" "live_neighbors blinker 2 2 = 2"
  by (simp_all add: live_neighbors_def blinker_def wrap_def)

text \<open>
  Claim C1. On every well-formed grid (\<open>cols\<close> columns of \<open>rows\<close> cells), one call of
  \<open>update\<close> returns normally, keeps the grid's shape and every other field, and sets each
  cell from the grid as it was before the call: a dead cell with exactly three live
  neighbours among its eight toroidally wrapped neighbours becomes alive, a live cell
  with fewer than two or more than three dies, and every other cell keeps its state. The
  neighbour count \<open>live_neighbors\<close> reads the state before the call only.
\<close>

theorem update_applies_conway:
  assumes "grid_ok s"
  shows "\<exists>nxt. update s = Inr (s\<lparr>grid := nxt\<rparr>) \<and> grid_ok (s\<lparr>grid := nxt\<rparr>) \<and>
     (\<forall>i < cols s. \<forall>j < rows s.
        (grid s ! i ! j = 0 \<and> live_neighbors s i j = 3 \<longrightarrow> nxt ! i ! j = 1) \<and>
        (grid s ! i ! j = 1 \<and> (live_neighbors s i j < 2 \<or> 3 < live_neighbors s i j) \<longrightarrow>
           nxt ! i ! j = 0) \<and>
        (\<not> (grid s ! i ! j = 0 \<and> live_neighbors s i j = 3) \<and>
         \<not> (grid s ! i ! j = 1 \<and> (live_neighbors s i j < 2 \<or> 3 < live_neighbors s i j)) \<longrightarrow>
           nxt ! i ! j = grid s ! i ! j))"
proof -
  from update_ok [OF assms] obtain nxt where
    n: "update s = Inr (s\<lparr>grid := nxt\<rparr>)" "map length nxt = map length (grid s)"
       "\<forall>i < cols s. \<forall>j < rows s. nxt ! i ! j = next_state s i j"
    by blast
  have ok: "grid_ok (s\<lparr>grid := nxt\<rparr>)"
    by (rule grid_ok_shape [OF assms n(2)])
  have "\<forall>i < cols s. \<forall>j < rows s.
        (grid s ! i ! j = 0 \<and> live_neighbors s i j = 3 \<longrightarrow> nxt ! i ! j = 1) \<and>
        (grid s ! i ! j = 1 \<and> (live_neighbors s i j < 2 \<or> 3 < live_neighbors s i j) \<longrightarrow>
           nxt ! i ! j = 0) \<and>
        (\<not> (grid s ! i ! j = 0 \<and> live_neighbors s i j = 3) \<and>
         \<not> (grid s ! i ! j = 1 \<and> (live_neighbors s i j < 2 \<or> 3 < live_neighbors s i j)) \<longrightarrow>
           nxt ! i ! j = grid s ! i ! j)"
  proof (intro allI impI)
    fix i j
    assume "i < cols s" "j < rows s"
    then have "nxt ! i ! j = conway (grid s ! i ! j) (live_neighbors s i j)"
      using n(3) by (simp add: next_state_def)
    then show "(grid s ! i ! j = 0 \<and> live_neighbors s i j = 3 \<longrightarrow> nxt ! i ! j = 1) \<and>
        (grid s ! i ! j = 1 \<and> (live_neighbors s i j < 2 \<or> 3 < live_neighbors s i j) \<longrightarrow>
           nxt ! i ! j = 0) \<and>
        (\<not> (grid s ! i ! j = 0 \<and> live_neighbors s i j = 3) \<and>
         \<not> (grid s ! i ! j = 1 \<and> (live_neighbors s i j < 2 \<or> 3 < live_neighbors s i j)) \<longrightarrow>
           nxt ! i ! j = grid s ! i ! j)"
      by (simp add: conway_def)
  qed
  with n(1) ok show ?thesis by blast
qed

theorem update_applies_conway_witness:
  "grid_ok blinker \<and>
   (\<exists>nxt. update blinker = Inr (blinker\<lparr>grid := nxt\<rparr>) \<and>
      nxt ! 1 ! 2 = 1 \<and> nxt ! 2 ! 1 = 0 \<and> nxt ! 2 ! 2 = 1)"
proof -
  from update_applies_conway [OF blinker_ok] obtain nxt where
    u: "update blinker = Inr (blinker\<lparr>grid := nxt\<rparr>)" and
    r: "\<forall>i < cols blinker. \<forall>j < rows blinker.
        (grid blinker ! i ! j = 0 \<and> live_neighbors blinker i j = 3 \<longrightarrow> nxt ! i ! j = 1) \<and>
        (grid blinker ! i ! j = 1 \<and> (live_neighbors blinker i j < 2 \<or> 3 < live_neighbors blinker i j) \<longrightarrow>
           nxt ! i ! j = 0) \<and>
        (\<not> (grid blinker ! i ! j = 0 \<and> live_neighbors blinker i j = 3) \<and>
         \<not> (grid blinker ! i ! j = 1 \<and> (live_neighbors blinker i j < 2 \<or> 3 < live_neighbors blinker i j)) \<longrightarrow>
           nxt ! i ! j = grid blinker ! i ! j)"
    by blast
  have d: "cols blinker = 5" "rows blinker = 5"
    "grid blinker ! 1 ! 2 = 0" "grid blinker ! 2 ! 1 = 1" "grid blinker ! 2 ! 2 = 1"
    by (simp_all add: blinker_def)
  have "nxt ! 1 ! 2 = 1" using r [rule_format, of 1 2] d blinker_counts by simp
  moreover have "nxt ! 2 ! 1 = 0" using r [rule_format, of 2 1] d blinker_counts by simp
  moreover have "nxt ! 2 ! 2 = 1" using r [rule_format, of 2 2] d blinker_counts by simp
  ultimately show ?thesis using u blinker_ok by blast
qed

section \<open>Properties of allocation and seeding\<close>

lemma set_cell_ok:
  "i < length g \<Longrightarrow> j < length (g ! i) \<Longrightarrow> set_cell g i j v = Inr (g[i := (g ! i)[j := v]])"
  by (simp add: set_cell_def)

lemma cell_update_nth:
  assumes "i < length g" "j < length (g ! i)"
  shows "g[i := (g ! i)[j := v]] ! i' ! j' = (if i' = i \<and> j' = j then v else g ! i' ! j')"
  using assms by (cases "i' = i"; cases "j' = j") simp_all

lemma cell_update_shape:
  "i < length g \<Longrightarrow> map length (g[i := (g ! i)[j := v]]) = map length g"
  by (simp add: map_length_update)

lemma seed_j_upt:
  assumes "i < length g" "length (g ! i) = n"
  shows "a \<le> n \<Longrightarrow> map length g1 = map length g \<Longrightarrow>
     \<exists>g'. seed_j rnd i [a..<n] (g1, k) = Inr (g', k + (n - a)) \<and> map length g' = map length g \<and>
       (\<forall>i' j'. g' ! i' ! j' =
          (if i' = i \<and> a \<le> j' \<and> j' < n then sample rnd (k + (j' - a)) else g1 ! i' ! j'))"
proof (induction "n - a" arbitrary: a g1 k)
  case 0
  then have "[a..<n] = []" by simp
  then show ?case using 0 by auto
next
  case (Suc d)
  then have a: "a < n" and d: "d = n - Suc a" and le: "Suc a \<le> n" by auto
  have i1: "i < length g1" using shape_len [OF Suc.prems(2)] assms(1) by simp
  have c1: "length (g1 ! i) = n" using shape_col [OF Suc.prems(2) assms(1)] assms(2) by simp
  define g2 where "g2 = g1[i := (g1 ! i)[a := sample rnd k]]"
  have step: "set_cell g1 i a (sample rnd k) = Inr g2"
    unfolding g2_def using i1 c1 a by (simp add: set_cell_ok)
  have shape: "map length g2 = map length g"
    unfolding g2_def using cell_update_shape [OF i1] Suc.prems(2) by simp
  from Suc.hyps(1) [OF d le shape, of "Suc k"] obtain g' where
    g': "seed_j rnd i [Suc a..<n] (g2, Suc k) = Inr (g', Suc k + (n - Suc a))"
      "map length g' = map length g"
      "\<forall>i' j'. g' ! i' ! j' =
          (if i' = i \<and> Suc a \<le> j' \<and> j' < n then sample rnd (Suc k + (j' - Suc a)) else g2 ! i' ! j')"
    by blast
  have "[a..<n] = a # [Suc a..<n]" using a by (simp add: upt_conv_Cons)
  then have "seed_j rnd i [a..<n] (g1, k) = Inr (g', k + (n - a))"
    using step g'(1) a by (simp add: sample_def)
  moreover have "\<forall>i' j'. g' ! i' ! j' =
          (if i' = i \<and> a \<le> j' \<and> j' < n then sample rnd (k + (j' - a)) else g1 ! i' ! j')"
  proof (intro allI)
    fix i' j'
    have "g2 ! i' ! j' = (if i' = i \<and> j' = a then sample rnd k else g1 ! i' ! j')"
      unfolding g2_def using i1 c1 a by (intro cell_update_nth) simp_all
    then show "g' ! i' ! j' =
          (if i' = i \<and> a \<le> j' \<and> j' < n then sample rnd (k + (j' - a)) else g1 ! i' ! j')"
      using g'(3) [rule_format, of i' j'] a
      by (cases "j' = a") (auto simp: Suc_diff_Suc le_Suc_eq)
  qed
  ultimately show ?case using g'(2) by blast
qed

lemma seed_i_upt:
  assumes "length g = m" "\<forall>i < m. length (g ! i) = n"
  shows "a \<le> m \<Longrightarrow> map length g1 = map length g \<Longrightarrow>
     \<exists>g'. seed_i rnd n [a..<m] (g1, k) = Inr (g', k + (m - a) * n) \<and> map length g' = map length g \<and>
       (\<forall>i' j'. g' ! i' ! j' =
          (if a \<le> i' \<and> i' < m \<and> j' < n then sample rnd (k + (i' - a) * n + j') else g1 ! i' ! j'))"
proof (induction "m - a" arbitrary: a g1 k)
  case 0
  then have "[a..<m] = []" by simp
  then show ?case using 0 by auto
next
  case (Suc d)
  then have a: "a < m" and d: "d = m - Suc a" and le: "Suc a \<le> m" by auto
  have al: "a < length g" and an: "length (g ! a) = n" using a assms by auto
  from seed_j_upt [OF al an le0 Suc.prems(2), of rnd k] obtain g2 where
    g2: "seed_j rnd a [0..<n] (g1, k) = Inr (g2, k + (n - 0))" "map length g2 = map length g"
      "\<forall>i' j'. g2 ! i' ! j' =
          (if i' = a \<and> 0 \<le> j' \<and> j' < n then sample rnd (k + (j' - 0)) else g1 ! i' ! j')"
    by blast
  from Suc.hyps(1) [OF d le g2(2), of "k + n"] obtain g' where
    g': "seed_i rnd n [Suc a..<m] (g2, k + n) = Inr (g', k + n + (m - Suc a) * n)"
      "map length g' = map length g"
      "\<forall>i' j'. g' ! i' ! j' =
          (if Suc a \<le> i' \<and> i' < m \<and> j' < n then sample rnd (k + n + (i' - Suc a) * n + j')
           else g2 ! i' ! j')"
    by blast
  have "m - a = Suc (m - Suc a)" using a by simp
  then have cnt: "k + n + (m - Suc a) * n = k + (m - a) * n"
    by simp
  have "[a..<m] = a # [Suc a..<m]" using a by (simp add: upt_conv_Cons)
  then have "seed_i rnd n [a..<m] (g1, k) = Inr (g', k + (m - a) * n)"
    using g2(1) g'(1) cnt by simp
  moreover have "\<forall>i' j'. g' ! i' ! j' =
          (if a \<le> i' \<and> i' < m \<and> j' < n then sample rnd (k + (i' - a) * n + j') else g1 ! i' ! j')"
  proof (intro allI)
    fix i' j'
    show "g' ! i' ! j' =
          (if a \<le> i' \<and> i' < m \<and> j' < n then sample rnd (k + (i' - a) * n + j') else g1 ! i' ! j')"
    proof (cases "Suc a \<le> i' \<and> i' < m \<and> j' < n")
      case True
      then have "i' - a = Suc (i' - Suc a)" by linarith
      then have e: "k + n + (i' - Suc a) * n + j' = k + (i' - a) * n + j'"
        by simp
      have "g' ! i' ! j' = sample rnd (k + n + (i' - Suc a) * n + j')"
        using g'(3) [rule_format, of i' j'] True by simp
      then have "g' ! i' ! j' = sample rnd (k + (i' - a) * n + j')"
        by (simp only: e)
      then show ?thesis using True by simp
    next
      case False
      then show ?thesis
        using g'(3) [rule_format, of i' j'] g2(3) [rule_format, of i' j'] a
        by (cases "i' = a") (auto simp: le_Suc_eq)
    qed
  qed
  ultimately show ?case using g'(2) by blast
qed

lemma seed_createGrid:
  "\<exists>g. seed rnd k (createGrid s) = Inr (s\<lparr>grid := g\<rparr>, k + cols s * rows s) \<and>
       map length g = replicate (cols s) (rows s) \<and>
       (\<forall>i < cols s. \<forall>j < rows s. g ! i ! j = sample rnd (k + i * rows s + j))"
proof -
  define g0 :: "int list list" where "g0 = replicate (cols s) (replicate (rows s) 0)"
  have l: "length g0 = cols s" and c: "\<forall>i < cols s. length (g0 ! i) = rows s"
    by (simp_all add: g0_def)
  from seed_i_upt [OF l c le0 refl, of rnd k] obtain g where
    g: "seed_i rnd (rows s) [0..<cols s] (g0, k) = Inr (g, k + (cols s - 0) * rows s)"
      "map length g = map length g0"
      "\<forall>i' j'. g ! i' ! j' =
          (if 0 \<le> i' \<and> i' < cols s \<and> j' < rows s then sample rnd (k + (i' - 0) * rows s + j')
           else g0 ! i' ! j')"
    by blast
  have "seed rnd k (createGrid s) = Inr (s\<lparr>grid := g\<rparr>, k + cols s * rows s)"
    using g(1) by (simp add: seed_def createGrid_def g0_def)
  moreover have "map length g = replicate (cols s) (rows s)"
    using g(2) by (simp add: g0_def)
  moreover have "\<forall>i < cols s. \<forall>j < rows s. g ! i ! j = sample rnd (k + i * rows s + j)"
  proof (intro allI impI)
    fix i j assume "i < cols s" "j < rows s"
    then show "g ! i ! j = sample rnd (k + i * rows s + j)"
      using g(3) [rule_format, of i j] by simp
  qed
  ultimately show ?thesis by blast
qed

lemma draw_index_inj:
  assumes "j < n" "j' < n" "i * n + j = i' * n + j'"
  shows "i = i' \<and> j = (j'::nat)"
proof -
  have "i = (i * n + j) div n" using assms(1) by simp
  also have "\<dots> = (i' * n + j') div n" by (simp only: assms(3))
  also have "\<dots> = i'" using assms(2) by simp
  finally have "i = i'" .
  then show ?thesis using assms(3) by simp
qed

lemma resize_ok:
  "\<exists>s'. resize page rnd k s = Inr (s', k + cols s' * rows s') \<and>
     (width s', height s') = (case parentClient page of Some client \<Rightarrow> client | None \<Rightarrow> windowInner page) \<and>
     cols s' = nat \<lceil>real (width s') / 8\<rceil> \<and> rows s' = nat \<lceil>real (height s') / 8\<rceil> \<and>
     grid_ok s' \<and>
     (\<forall>i < cols s'. \<forall>j < rows s'.
        grid s' ! i ! j = (if rnd (k + (i * rows s' + j)) < 0.15 then 1 else 0)) \<and>
     (\<forall>i < cols s'. \<forall>j < rows s'. \<forall>i' < cols s'. \<forall>j' < rows s'.
        i * rows s' + j = i' * rows s' + j' \<longrightarrow> i = i' \<and> j = j') \<and>
     (\<forall>g0. resize page rnd k (s\<lparr>grid := g0\<rparr>) = Inr (s', k + cols s' * rows s')) \<and>
     animationId s' = animationId s \<and> ctx s' = ctx s"
proof -
  define sz where "sz = (case parentClient page of Some client \<Rightarrow> client | None \<Rightarrow> windowInner page)"
  define s3 where "s3 = s\<lparr>canvas := (canvas s)\<lparr>cwidth := fst sz, cheight := snd sz\<rparr>,
     width := fst sz, height := snd sz,
     cols := nat \<lceil>real (fst sz) / real cellSize\<rceil>, rows := nat \<lceil>real (snd sz) / real cellSize\<rceil>\<rparr>"
  have r: "resize page rnd k (s\<lparr>grid := g0\<rparr>) = seed rnd k (createGrid s3)" for g0
    by (simp add: resize_def Let_def sz_def s3_def createGrid_def)
  from seed_createGrid [of rnd k s3] obtain g where
    g: "seed rnd k (createGrid s3) = Inr (s3\<lparr>grid := g\<rparr>, k + cols s3 * rows s3)"
       "map length g = replicate (cols s3) (rows s3)"
       "\<forall>i < cols s3. \<forall>j < rows s3. g ! i ! j = sample rnd (k + i * rows s3 + j)"
    by blast
  define s' where "s' = s3\<lparr>grid := g\<rparr>"
  have f: "cols s' = cols s3" "rows s' = rows s3" "grid s' = g"
    "width s' = fst sz" "height s' = snd sz"
    "cols s3 = nat \<lceil>real (fst sz) / 8\<rceil>" "rows s3 = nat \<lceil>real (snd sz) / 8\<rceil>"
    by (simp_all add: s'_def s3_def cellSize_def)
  have 7: "\<forall>g0. resize page rnd k (s\<lparr>grid := g0\<rparr>) = Inr (s', k + cols s' * rows s')"
    using r g(1) by (simp add: s'_def)
  have "resize page rnd k s = resize page rnd k (s\<lparr>grid := grid s\<rparr>)" by simp
  then have 1: "resize page rnd k s = Inr (s', k + cols s' * rows s')"
    using 7 by (simp only:)
  have 2: "(width s', height s') = sz" by (simp add: f)
  have 3: "cols s' = nat \<lceil>real (width s') / 8\<rceil>" "rows s' = nat \<lceil>real (height s') / 8\<rceil>"
    by (simp_all add: f)
  have "length (map length g) = cols s3" by (simp only: g(2) length_replicate)
  then have "length g = cols s3" by simp
  moreover have "\<forall>c \<in> set g. length c = rows s3"
  proof
    fix c assume "c \<in> set g"
    then have "length c \<in> set (map length g)" by simp
    then show "length c = rows s3" by (simp only: g(2)) simp
  qed
  ultimately have 4: "grid_ok s'" by (simp add: grid_ok_def f)
  have 5: "\<forall>i < cols s'. \<forall>j < rows s'.
        grid s' ! i ! j = (if rnd (k + (i * rows s' + j)) < 0.15 then 1 else 0)"
    using g(3) by (simp add: f sample_def add.assoc)
  have 6: "\<forall>i < cols s'. \<forall>j < rows s'. \<forall>i' < cols s'. \<forall>j' < rows s'.
        i * rows s' + j = i' * rows s' + j' \<longrightarrow> i = i' \<and> j = j'"
    using draw_index_inj by blast
  have 8: "animationId s' = animationId s" "ctx s' = ctx s"
    by (simp_all add: s'_def s3_def)
  show ?thesis
    using 1 2 3 4 5 6 7 8 unfolding sz_def by blast
qed

text \<open>
  Claim C6. Every call of \<open>resize\<close> returns normally and leaves the surface size equal
  to the parent's client size (the window's inner size without a parent),
  \<open>cols = ceil(width / 8)\<close>, \<open>rows = ceil(height / 8)\<close> and a grid of exactly
  \<open>cols\<close> columns of \<open>rows\<close> cells. Each cell is resampled from a draw of its own
  (draw number \<open>k + i * rows + j\<close>, different for different cells): it is alive exactly
  when its draw is below 0.15. Nothing of the grid before the call survives: the result
  is the same whatever the grid was.
\<close>

theorem resize_reallocates:
  "\<exists>s'. resize page rnd k s = Inr (s', k + cols s' * rows s') \<and>
     (width s', height s') = (case parentClient page of Some client \<Rightarrow> client | None \<Rightarrow> windowInner page) \<and>
     cols s' = nat \<lceil>real (width s') / 8\<rceil> \<and> rows s' = nat \<lceil>real (height s') / 8\<rceil> \<and>
     grid_ok s' \<and>
     (\<forall>i < cols s'. \<forall>j < rows s'.
        grid s' ! i ! j = (if rnd (k + (i * rows s' + j)) < 0.15 then 1 else 0)) \<and>
     (\<forall>i < cols s'. \<forall>j < rows s'. \<forall>i' < cols s'. \<forall>j' < rows s'.
        i * rows s' + j = i' * rows s' + j' \<longrightarrow> i = i' \<and> j = j') \<and>
     (\<forall>g0. resize page rnd k (s\<lparr>grid := g0\<rparr>) = Inr (s', k + cols s' * rows s'))"
  using resize_ok [of page rnd k s] by blast

theorem resize_reallocates_witness:
  "\<exists>s'. resize page0 rnd0 0 blinker = Inr (s', 6) \<and> cols s' = 3 \<and> rows s' = 2 \<and>
     grid s' ! 0 ! 0 = 1 \<and> grid s' ! 2 ! 1 = 0"
proof -
  from resize_reallocates [of page0 rnd0 0 blinker] obtain s' where
    s': "resize page0 rnd0 0 blinker = Inr (s', 0 + cols s' * rows s')"
      "(width s', height s') = (case parentClient page0 of Some client \<Rightarrow> client | None \<Rightarrow> windowInner page0)"
      "cols s' = nat \<lceil>real (width s') / 8\<rceil>" "rows s' = nat \<lceil>real (height s') / 8\<rceil>"
      "\<forall>i < cols s'. \<forall>j < rows s'.
        grid s' ! i ! j = (if rnd0 (0 + (i * rows s' + j)) < 0.15 then 1 else 0)"
    by blast
  have wh: "width s' = 20" "height s' = 10" using s'(2) by (simp_all add: page0_def)
  have d: "cols s' = 3" "rows s' = 2" using s'(3,4) by (simp_all add: wh)
  have "grid s' ! 0 ! 0 = 1" using s'(5) [rule_format, of 0 0] d by (simp add: rnd0_def)
  moreover have "grid s' ! 2 ! 1 = 0" using s'(5) [rule_format, of 2 1] d by (simp add: rnd0_def)
  ultimately show ?thesis using s'(1) d by auto
qed

section \<open>Properties of the pointer-move handler\<close>

lemma painted_refl: "painted g g"
  by (simp add: painted_def)

lemma painted_trans:
  assumes "painted g g1" "painted g1 g2"
  shows "painted g g2"
proof -
  have s: "map length g1 = map length g" "map length g2 = map length g1"
    using assms by (simp_all add: painted_def)
  have "g2 ! c ! r = g ! c ! r \<or> (c < length g \<and> r < length (g ! c) \<and> g2 ! c ! r = 1)" for c r
  proof -
    have a: "g1 ! c ! r = g ! c ! r \<or> (c < length g \<and> r < length (g ! c) \<and> g1 ! c ! r = 1)"
      using assms(1) by (simp add: painted_def)
    have b: "g2 ! c ! r = g1 ! c ! r \<or> (c < length g1 \<and> r < length (g1 ! c) \<and> g2 ! c ! r = 1)"
      using assms(2) by (simp add: painted_def)
    have "c < length g1 \<Longrightarrow> c < length g \<and> length (g1 ! c) = length (g ! c)"
      using shape_len [OF s(1)] shape_col [OF s(1), of c] by simp
    then show ?thesis using a b by auto
  qed
  then show ?thesis using s by (simp add: painted_def)
qed

lemma js_slot_less: "js_slot xs k = Some n \<Longrightarrow> n < length xs"
  by (auto simp: js_slot_def split: option.splits if_splits)

lemma paint_cell_painted:
  "\<exists>g' k'. paint_cell rnd ncols nrows col row i j (g, k) = Inr (g', k') \<and> painted g g'"
proof (cases "js_slot g (js_rem (col + i + int ncols) (int ncols))")
  case None
  then show ?thesis by (simp add: paint_cell_def painted_refl)
next
  case (Some ci)
  note ci = this
  show ?thesis
  proof (cases "js_slot (g ! ci) (js_rem (row + j + int nrows) (int nrows))")
    case None
    then show ?thesis using ci by (simp add: paint_cell_def painted_refl)
  next
    case (Some ri)
    have r: "ci < length g" "ri < length (g ! ci)"
      using js_slot_less [OF ci] js_slot_less [OF Some] by simp_all
    have "painted g (g[ci := (g ! ci)[ri := 1]])"
      unfolding painted_def using r cell_update_nth [OF r, of 1] cell_update_shape [OF r(1), of ri 1]
      by auto
    then show ?thesis
      using ci Some r by (simp add: paint_cell_def set_cell_ok painted_refl)
  qed
qed

lemma paint_j_painted:
  "\<exists>g' k'. paint_j rnd ncols nrows col row i js (g, k) = Inr (g', k') \<and> painted g g'"
proof (induction js arbitrary: g k)
  case Nil
  then show ?case by (simp add: painted_refl)
next
  case (Cons j js)
  from paint_cell_painted [of rnd ncols nrows col row i j g k] obtain g1 k1 where
    1: "paint_cell rnd ncols nrows col row i j (g, k) = Inr (g1, k1)" "painted g g1" by blast
  from Cons.IH [of g1 k1] obtain g2 k2 where
    2: "paint_j rnd ncols nrows col row i js (g1, k1) = Inr (g2, k2)" "painted g1 g2" by blast
  have "paint_j rnd ncols nrows col row i (j # js) (g, k) = Inr (g2, k2)" using 1(1) 2(1) by simp
  then show ?case using painted_trans [OF 1(2) 2(2)] by blast
qed

lemma paint_i_painted:
  "\<exists>g' k'. paint_i rnd ncols nrows col row is (g, k) = Inr (g', k') \<and> painted g g'"
proof (induction "is" arbitrary: g k)
  case Nil
  then show ?case by (simp add: painted_refl)
next
  case (Cons i "is")
  from paint_j_painted [of rnd ncols nrows col row i "[-1, 0, 1]" g k] obtain g1 k1 where
    1: "paint_j rnd ncols nrows col row i [-1, 0, 1] (g, k) = Inr (g1, k1)" "painted g g1" by blast
  from Cons.IH [of g1 k1] obtain g2 k2 where
    2: "paint_i rnd ncols nrows col row is (g1, k1) = Inr (g2, k2)" "painted g1 g2" by blast
  have "paint_i rnd ncols nrows col row (i # is) (g, k) = Inr (g2, k2)" using 1(1) 2(1) by simp
  then show ?case using painted_trans [OF 1(2) 2(2)] by blast
qed

lemma handleMouseMove_painted:
  "\<exists>g' k'. handleMouseMove page e rnd k s = Inr (s\<lparr>grid := g'\<rparr>, k') \<and> painted (grid s) g'"
proof -
  from paint_i_painted [of rnd "cols s" "rows s" "pointer_col page e" "pointer_row page e" "[-1, 0, 1]" "grid s" k]
  obtain g' k' where
    p: "paint_i rnd (cols s) (rows s) (pointer_col page e) (pointer_row page e) [-1, 0, 1] (grid s, k) = Inr (g', k')"
       "painted (grid s) g'"
    by blast
  have "handleMouseMove page e rnd k s = Inr (s\<lparr>grid := g'\<rparr>, k')"
    using p(1) by (simp add: handleMouseMove_def)
  then show ?thesis using p(2) by blast
qed



lemma paint_shape: "shaped g m n \<Longrightarrow> c < m \<Longrightarrow> map length (paint g c r b) = map length g"
  by (simp add: paint_def shaped_def cell_update_shape)










text \<open>
  Claim C10. \<open>handleMouseMove\<close> is total and stays inside the grid for every state, page
  and pointer coordinate, also when the wrap expression is negative or \<open>NaN\<close> (far left
  of or above the surface, or an empty grid): it returns normally (no write reaches
  \<open>set_cell\<close> with an index outside the grid), the grid keeps its dimensions, and every
  cell is either unchanged or an existing cell set to 1.
\<close>

theorem handleMouseMove_safe:
  "\<exists>g' k'. handleMouseMove page e rnd k s = Inr (s\<lparr>grid := g'\<rparr>, k') \<and>
     map length g' = map length (grid s) \<and>
     (\<forall>c r. g' ! c ! r = grid s ! c ! r \<or>
            (c < length (grid s) \<and> r < length (grid s ! c) \<and> g' ! c ! r = 1))"
  using handleMouseMove_painted [of page e rnd k s] unfolding painted_def by blast




section \<open>Properties of the particle step\<close>




lemma atan2_origin: "cos (atan2 0 0) = 1" "sin (atan2 0 0) = 0"
  by (simp_all add: atan2_def)

lemma center_dist_eq:
  "center_dist w h p = sqrt ((real w / 2 - px p)\<^sup>2 + (real h / 2 - py p)\<^sup>2)"
  by (simp add: center_dist_def Let_def power2_eq_square)

lemma attraction_eq:
  "attraction w h p = p\<lparr>pvx := pvx p + fst (pull w h p), pvy := pvy p + snd (pull w h p)\<rparr>"
  by (simp add: attraction_def pull_def center_dist_def Let_def)

lemma repulsion_eq:
  "repulsion m p =
     (if pointer_dist m p < 200 \<and> pointer_dist m p = 0 then None
      else Some (p\<lparr>pvx := pvx p - fst (push m p), pvy := pvy p - snd (push m p)\<rparr>))"
  by (simp add: repulsion_def push_def pointer_dist_def Let_def power2_eq_square)

lemma pointer_dist_attraction: "pointer_dist m (attraction w h p) = pointer_dist m p"
  by (simp add: attraction_eq pointer_dist_def)

lemma push_attraction: "push m (attraction w h p) = push m p"
proof -
  have "px (attraction w h p) = px p" "py (attraction w h p) = py p"
    by (simp_all add: attraction_eq)
  then show ?thesis by (simp add: push_def pointer_dist_attraction Let_def)
qed

lemma moved_eq:
  "map_option (move \<circ> friction) (repulsion m (attraction w h p)) =
     (if pointer_dist m p = 0 then None else Some (stepped w h m p))"
proof -
  have nn: "0 \<le> pointer_dist m p" by (simp add: pointer_dist_def)
  show ?thesis
  proof (cases "pointer_dist m p = 0")
    case True
    then show ?thesis
      by (simp add: repulsion_eq pointer_dist_attraction)
  next
    case False
    then show ?thesis
      by (simp add: repulsion_eq pointer_dist_attraction push_attraction)
        (simp add: attraction_eq friction_def move_def stepped_def Let_def)
  qed
qed

lemma update_particle_eq:
  "update_particle w h m rnd k p =
     (if center_dist w h p < 10 then
        (let p1 = fst (reset w h rnd k p)
         in if lost w h p1 then (Some (fst (reset w h rnd (k + 3) p1)), k + 6) else (Some p1, k + 3))
      else if pointer_dist m p = 0 then (None, k)
      else if lost w h (stepped w h m p) then (Some (fst (reset w h rnd k (stepped w h m p))), k + 3)
      else (Some (stepped w h m p), k))"
  by (simp add: update_particle_def moved_eq Let_def reset_def)

lemma reset_ring:
  "fst (reset w h rnd k p) =
     ring w h (rnd k * pi * 2) (real (min w h) / 2 + rnd (k + 1) * 50) (rnd (k + 2) * 2 + 1) p"
  by (simp add: reset_def ring_def Let_def)

lemma ring_stepped: "ring w h theta r speed (stepped w h m p) = ring w h theta r speed p"
  by (simp add: ring_def stepped_def Let_def)

lemma cos_sin_scaled:
  fixes r t :: real
  assumes r: "0 \<le> r"
  shows "\<bar>cos t * r\<bar> \<le> r" "\<bar>sin t * r\<bar> \<le> r"
proof -
  have "\<bar>cos t * r\<bar> = \<bar>cos t\<bar> * r" by (simp only: abs_mult abs_of_nonneg [OF r])
  also have "\<dots> \<le> 1 * r" by (rule mult_right_mono) (simp_all add: r)
  finally show "\<bar>cos t * r\<bar> \<le> r" by simp
  have "\<bar>sin t * r\<bar> = \<bar>sin t\<bar> * r" by (simp only: abs_mult abs_of_nonneg [OF r])
  also have "\<dots> \<le> 1 * r" by (rule mult_right_mono) (simp_all add: r)
  finally show "\<bar>sin t * r\<bar> \<le> r" by simp
qed

lemma ring_not_lost:
  assumes "0 \<le> r" "r < real (min w h) / 2 + 50"
  shows "\<not> lost w h (ring w h theta r speed p)"
    and "- 50 < px (ring w h theta r speed p)"
proof -
  have m: "real (min w h) \<le> real w" "real (min w h) \<le> real h" by simp_all
  have c: "\<bar>cos theta * r\<bar> \<le> r" and s: "\<bar>sin theta * r\<bar> \<le> r"
    using cos_sin_scaled [OF assms(1), of theta] by simp_all
  have x: "px (ring w h theta r speed p) = real w / 2 + cos theta * r"
    and y: "py (ring w h theta r speed p) = real h / 2 + sin theta * r"
    by (simp_all add: ring_def)
  show "\<not> lost w h (ring w h theta r speed p)"
    unfolding lost_def x y using c s m assms(2) by linarith
  show "- 50 < px (ring w h theta r speed p)"
    unfolding x using c m assms(2) by linarith
qed


lemma ring_speed:
  "0 \<le> speed \<Longrightarrow> speed_of (ring w h theta r speed p) = speed"
proof -
  assume s: "0 \<le> speed"
  have "(sin theta * speed)\<^sup>2 + (cos theta * speed)\<^sup>2 = ((sin theta)\<^sup>2 + (cos theta)\<^sup>2) * speed\<^sup>2"
    by algebra
  also have "\<dots> = speed\<^sup>2" by simp
  finally have "(sin theta * speed)\<^sup>2 + (cos theta * speed)\<^sup>2 = speed\<^sup>2" .
  then show ?thesis using s by (simp add: speed_of_def ring_def)
qed


lemma draws_in_range:
  assumes "\<forall>n. 0 \<le> rnd n \<and> rnd n < 1"
  shows "0 \<le> rnd k * pi * 2" "rnd k * pi * 2 < 2 * pi"
    "real (min w h) / 2 \<le> real (min w h) / 2 + rnd (k + 1) * 50"
    "real (min w h) / 2 + rnd (k + 1) * 50 < real (min w h) / 2 + 50"
    "1 \<le> rnd (k + 2) * 2 + 1" "rnd (k + 2) * 2 + 1 < 3"
proof -
  have a: "0 \<le> rnd k" "rnd k < 1" "0 \<le> rnd (k + 1)" "rnd (k + 1) < 1"
    "0 \<le> rnd (k + 2)" "rnd (k + 2) < 1"
    using assms by simp_all
  show "0 \<le> rnd k * pi * 2" using a(1) by simp
  have "rnd k * pi < 1 * pi" using a(2) by (intro mult_strict_right_mono) simp_all
  then show "rnd k * pi * 2 < 2 * pi" by simp
  show "real (min w h) / 2 \<le> real (min w h) / 2 + rnd (k + 1) * 50" using a(3) by simp
  show "real (min w h) / 2 + rnd (k + 1) * 50 < real (min w h) / 2 + 50" using a(4) by simp
  show "1 \<le> rnd (k + 2) * 2 + 1" using a(5) by simp
  show "rnd (k + 2) * 2 + 1 < 3" using a(6) by simp
qed

lemma respawn:
  assumes "\<forall>n. 0 \<le> rnd n \<and> rnd n < 1"
    and "center_dist w h p < 10 \<or> (pointer_dist m p \<noteq> 0 \<and> lost w h (stepped w h m p))"
  shows "update_particle w h m rnd k p =
     (Some (ring w h (rnd k * pi * 2) (real (min w h) / 2 + rnd (k + 1) * 50) (rnd (k + 2) * 2 + 1) p),
      k + 3)"
proof -
  note d = draws_in_range [OF assms(1)]
  have "0 \<le> real (min w h) / 2" by simp
  then have r0: "0 \<le> real (min w h) / 2 + rnd (k + 1) * 50" using d(3) [of w h k] by linarith
  let ?q = "ring w h (rnd k * pi * 2) (real (min w h) / 2 + rnd (k + 1) * 50) (rnd (k + 2) * 2 + 1)"
  have nl: "\<not> lost w h (?q p)" by (rule ring_not_lost(1) [OF r0 d(4)])
  show ?thesis
  proof (cases "center_dist w h p < 10")
    case True
    then show ?thesis using nl by (simp add: update_particle_eq reset_ring Let_def)
  next
    case False
    then have "pointer_dist m p \<noteq> 0" "lost w h (stepped w h m p)" using assms(2) by simp_all
    then show ?thesis using False by (simp add: update_particle_eq reset_ring ring_stepped)
  qed
qed

lemma center_dist_nonneg: "0 \<le> center_dist w h p"
  by (simp add: center_dist_eq)

lemma pull_norm:
  "sqrt ((fst (pull w h p))\<^sup>2 + (snd (pull w h p))\<^sup>2) = 500 / (center_dist w h p + 50)"
proof -
  define c where "c = 500 / (center_dist w h p + 50)"
  define a where "a = atan2 (real h / 2 - py p) (real w / 2 - px p)"
  have c0: "0 \<le> c" unfolding c_def using center_dist_nonneg [of w h p] by simp
  have k: "x * (1000 / y) * 0.5 = x * (500 / y)" for x y :: real by simp
  have f: "fst (pull w h p) = cos a * c" "snd (pull w h p) = sin a * c"
    unfolding pull_def Let_def c_def a_def fst_conv snd_conv by (rule k)+
  have "(cos a * c)\<^sup>2 + (sin a * c)\<^sup>2 = ((sin a)\<^sup>2 + (cos a)\<^sup>2) * c\<^sup>2" by algebra
  also have "\<dots> = c\<^sup>2" by simp
  finally have "sqrt ((cos a * c)\<^sup>2 + (sin a * c)\<^sup>2) = c" using c0 by simp
  then show ?thesis by (simp only: f c_def)
qed

lemma pull_bound: "500 / (center_dist w h p + 50) \<le> 10"
proof -
  have "0 < center_dist w h p + 50" using center_dist_nonneg [of w h p] by linarith
  moreover have "500 \<le> 10 * (center_dist w h p + 50)"
    using center_dist_nonneg [of w h p] by simp
  ultimately show ?thesis by (simp add: pos_divide_le_eq)
qed

lemma pull_components: "\<bar>fst (pull w h p)\<bar> \<le> 10" "\<bar>snd (pull w h p)\<bar> \<le> 10"
proof -
  have "\<bar>fst (pull w h p)\<bar> \<le> sqrt ((fst (pull w h p))\<^sup>2 + (snd (pull w h p))\<^sup>2)"
    by (rule real_sqrt_ge_abs1)
  then show "\<bar>fst (pull w h p)\<bar> \<le> 10" using pull_bound [of w h p] by (simp only: pull_norm)
  have "\<bar>snd (pull w h p)\<bar> \<le> sqrt ((fst (pull w h p))\<^sup>2 + (snd (pull w h p))\<^sup>2)"
    by (rule real_sqrt_ge_abs2)
  then show "\<bar>snd (pull w h p)\<bar> \<le> 10" using pull_bound [of w h p] by (simp only: pull_norm)
qed

lemma push_far: "200 \<le> pointer_dist m p \<Longrightarrow> push m p = (0, 0)"
  by (simp add: push_def Let_def)

lemma stepped_speed:
  assumes "200 \<le> pointer_dist m p"
  shows "speed_of (stepped w h m p) \<le> 0.95 * (speed_of p + 10)"
proof -
  define gx where "gx = fst (pull w h p)"
  define gy where "gy = snd (pull w h p)"
  have v: "pvx (stepped w h m p) = (pvx p + gx) * 0.95" "pvy (stepped w h m p) = (pvy p + gy) * 0.95"
    by (simp_all add: stepped_def Let_def push_far [OF assms] gx_def gy_def)
  have "((pvx p + gx) * 0.95)\<^sup>2 + ((pvy p + gy) * 0.95)\<^sup>2 =
        ((pvx p + gx)\<^sup>2 + (pvy p + gy)\<^sup>2) * 0.95\<^sup>2"
    by algebra
  then have "speed_of (stepped w h m p) = sqrt ((pvx p + gx)\<^sup>2 + (pvy p + gy)\<^sup>2) * 0.95"
    by (simp add: speed_of_def v real_sqrt_mult)
  also have "\<dots> \<le> (sqrt ((pvx p)\<^sup>2 + (pvy p)\<^sup>2) + sqrt (gx\<^sup>2 + gy\<^sup>2)) * 0.95"
    by (rule mult_right_mono [OF real_sqrt_sum_squares_triangle_ineq]) simp
  also have "\<dots> \<le> (speed_of p + 10) * 0.95"
    using pull_bound [of w h p] by (simp add: speed_of_def gx_def gy_def pull_norm)
  finally show ?thesis by simp
qed

lemma far_pointer:
  assumes "- 200 \<le> px p"
  shows "200 \<le> pointer_dist far_off p"
proof -
  have "\<bar>- 1000 - px p\<bar> \<le> sqrt ((- 1000 - px p)\<^sup>2 + (- 1000 - py p)\<^sup>2)"
    by (rule real_sqrt_ge_abs1)
  moreover have "800 \<le> \<bar>- 1000 - px p\<bar>" using assms by linarith
  ultimately have "200 \<le> sqrt ((- 1000 - px p)\<^sup>2 + (- 1000 - py p)\<^sup>2)" by linarith
  then show ?thesis by (simp add: pointer_dist_def far_off_def)
qed

lemma bounded_step:
  assumes "\<forall>n. 0 \<le> rnd n \<and> rnd n < 1" "200 \<le> pointer_dist far_off p"
    "speed_of p \<le> B" "190 \<le> B"
  shows "\<exists>p' k'. update_particle w h far_off rnd k p = (Some p', k') \<and>
           200 \<le> pointer_dist far_off p' \<and> speed_of p' \<le> B"
proof (cases "center_dist w h p < 10 \<or> lost w h (stepped w h far_off p)")
  case True
  have nz: "pointer_dist far_off p \<noteq> 0" using assms(2) by linarith
  let ?q = "ring w h (rnd k * pi * 2) (real (min w h) / 2 + rnd (k + 1) * 50) (rnd (k + 2) * 2 + 1) p"
  have u: "update_particle w h far_off rnd k p = (Some ?q, k + 3)"
    using True nz by (intro respawn [OF assms(1)]) blast
  note d = draws_in_range [OF assms(1)]
  have "0 \<le> real (min w h) / 2" by simp
  then have r0: "0 \<le> real (min w h) / 2 + rnd (k + 1) * 50" using d(3) [of w h k] by linarith
  have "- 50 < px ?q" by (rule ring_not_lost(2) [OF r0 d(4)])
  then have 1: "200 \<le> pointer_dist far_off ?q" by (intro far_pointer) linarith
  have s0: "0 \<le> rnd (k + 2) * 2 + 1" using d(5) [of k] by linarith
  have "speed_of ?q = rnd (k + 2) * 2 + 1" by (rule ring_speed [OF s0])
  then have 2: "speed_of ?q \<le> B" using d(6) [of k] assms(4) by linarith
  show ?thesis using u 1 2 by blast
next
  case False
  then have c: "\<not> center_dist w h p < 10" and l: "\<not> lost w h (stepped w h far_off p)" by simp_all
  have nz: "pointer_dist far_off p \<noteq> 0" using assms(2) by linarith
  have u: "update_particle w h far_off rnd k p = (Some (stepped w h far_off p), k)"
    using c l nz by (simp add: update_particle_eq)
  have "- 200 \<le> px (stepped w h far_off p)" using l by (simp add: lost_def)
  then have 1: "200 \<le> pointer_dist far_off (stepped w h far_off p)" by (rule far_pointer)
  have "speed_of (stepped w h far_off p) \<le> 0.95 * (speed_of p + 10)"
    by (rule stepped_speed [OF assms(2)])
  then have 2: "speed_of (stepped w h far_off p) \<le> B" using assms(3,4) by simp
  show ?thesis using u 1 2 by blast
qed

lemma bounded_simulate:
  assumes "\<forall>n. 0 \<le> rnd n \<and> rnd n < 1" "200 \<le> pointer_dist far_off p0"
    "speed_of p0 \<le> B" "190 \<le> B"
  shows "\<exists>p k'. simulate n w h far_off rnd (Some p0, k) = (Some p, k') \<and>
           200 \<le> pointer_dist far_off p \<and> speed_of p \<le> B"
proof (induction n)
  case 0
  then show ?case using assms(2,3) by simp
next
  case (Suc n)
  then obtain p k1 where
    1: "simulate n w h far_off rnd (Some p0, k) = (Some p, k1)"
       "200 \<le> pointer_dist far_off p" "speed_of p \<le> B" by blast
  from bounded_step [OF assms(1) 1(2,3) assms(4), of w h k1] obtain p' k' where
    2: "update_particle w h far_off rnd k1 p = (Some p', k')"
       "200 \<le> pointer_dist far_off p'" "speed_of p' \<le> B" by blast
  have "simulate (Suc n) w h far_off rnd (Some p0, k) = (Some p', k')"
    using 1(1) 2(1) by simp
  then show ?case using 2(2,3) by blast
qed

lemma particle0_facts:
  "center_dist 200 200 particle0 = 50" "200 \<le> pointer_dist far_off particle0"
  "push far_off particle0 = (0, 0)"
proof -
  have "center_dist 200 200 particle0 = sqrt 2500"
    by (simp add: center_dist_eq particle0_def)
  also have "\<dots> = 50" by (rule real_sqrt_unique) simp_all
  finally show "center_dist 200 200 particle0 = 50" .
  show f: "200 \<le> pointer_dist far_off particle0"
    by (rule far_pointer) (simp add: particle0_def)
  show "push far_off particle0 = (0, 0)" by (rule push_far [OF f])
qed

lemma half_range: "\<forall>n. 0 \<le> half n \<and> half n < 1"
  by (simp add: half_def)





text \<open>
  Claim C4. With draws in \<open>[0, 1)\<close>, the pointer at its first position
  \<open>(-1000, -1000)\<close> and a particle that starts at least 200 away from it (no repulsion):
  after any number of frames the particle has finite fields and the length of its
  velocity is at most the larger of its first length and 190. Each component of the
  attraction is at most \<open>1000 / 50 * 0.5 = 10\<close>, and a frame without respawn takes a
  velocity of length \<open>v\<close> to one of length at most \<open>0.95 * (v + 10)\<close>, a contraction with
  fixed point 190.
\<close>

theorem velocity_bounded:
  assumes "\<forall>n. 0 \<le> rnd n \<and> rnd n < 1" "200 \<le> pointer_dist far_off p0"
  shows "(\<forall>n. \<exists>p k'. simulate n w h far_off rnd (Some p0, k) = (Some p, k') \<and>
            speed_of p \<le> max (speed_of p0) 190) \<and>
         (\<forall>p. \<bar>fst (pull w h p)\<bar> \<le> 1000 / 50 * 0.5 \<and> \<bar>snd (pull w h p)\<bar> \<le> 1000 / 50 * 0.5) \<and>
         (\<forall>p. 200 \<le> pointer_dist far_off p \<longrightarrow>
            speed_of (stepped w h far_off p) \<le> 0.95 * (speed_of p + 1000 / 50 * 0.5))"
proof (intro conjI allI impI)
  fix n
  have b: "speed_of p0 \<le> max (speed_of p0) 190" "190 \<le> max (speed_of p0) 190" by simp_all
  from bounded_simulate [OF assms b, of n w h k]
  show "\<exists>p k'. simulate n w h far_off rnd (Some p0, k) = (Some p, k') \<and>
            speed_of p \<le> max (speed_of p0) 190" by blast
next
  fix p
  show "\<bar>fst (pull w h p)\<bar> \<le> 1000 / 50 * 0.5" using pull_components(1) [of w h p] by simp
  show "\<bar>snd (pull w h p)\<bar> \<le> 1000 / 50 * 0.5" using pull_components(2) [of w h p] by simp
next
  fix p assume "200 \<le> pointer_dist far_off p"
  from stepped_speed [OF this, of w h]
  show "speed_of (stepped w h far_off p) \<le> 0.95 * (speed_of p + 1000 / 50 * 0.5)" by simp
qed

theorem velocity_bounded_witness:
  "(\<forall>n. 0 \<le> half n \<and> half n < 1) \<and> 200 \<le> pointer_dist far_off particle0 \<and>
   (\<exists>p k'. simulate 1000 200 200 far_off half (Some particle0, 0) = (Some p, k') \<and>
      speed_of p \<le> 190)"
proof -
  have s: "speed_of particle0 = 0" by (simp add: speed_of_def particle0_def)
  from velocity_bounded [OF half_range particle0_facts(2), of 200 200 0]
  have "\<exists>p k'. simulate 1000 200 200 far_off half (Some particle0, 0) = (Some p, k') \<and>
            speed_of p \<le> max (speed_of particle0) 190" by blast
  then show ?thesis using half_range particle0_facts(2) by (simp add: s)
qed

section \<open>Properties of the node graph\<close>

lemma connect_peer:
  "connect s (ng_particles s ! i) (ng_particles s ! j) =
     (if node_dist s i j < real (connectionDistance s) then [peer_line s i j] else [])"
  by (simp add: connect_def node_dist_def peer_line_def position_def peer_alpha_def hexToRgba_def
      Let_def power2_eq_square)

lemma connect_mouse_line:
  "connect_mouse s (ng_particles s ! i) =
     (if mouse_dist s i < real (connectionDistance s) + 50 then [mouse_line s i] else [])"
  by (simp add: connect_mouse_def mouse_dist_def mouse_line_def position_def mouse_alpha_def
      hexToRgba_def Let_def power2_eq_square)

lemma draw_j_concat:
  "draw_j s i js =
     concat (map (\<lambda>j. if node_dist s i j < real (connectionDistance s) then [peer_line s i j] else []) js)"
  by (induction js) (simp_all add: connect_peer)

lemma draw_i_concat: "draw_i s is = concat (map (lines_of s) is)"
  by (induction "is") (simp_all add: draw_j_concat connect_mouse_line lines_of_def)

lemma draw_eq:
  "draw s = ClearRect (width s) (height s) # concat (map (lines_of s) [0..<length (ng_particles s)])
     @ map (\<lambda>p. Circle (nx p, ny p) (nsize p) (color s)) (ng_particles s)"
  by (simp add: draw_def draw_i_concat)

lemma lines_of_is_line: "c \<in> set (lines_of s i) \<Longrightarrow> is_line c"
  by (auto simp: lines_of_def is_line_def peer_line_def mouse_line_def split: if_splits)

lemma in_concat_if:
  "c \<in> set (concat (map (\<lambda>j. if P j then [f j] else []) js)) \<longleftrightarrow> (\<exists>j \<in> set js. P j \<and> c = f j)"
  by (induction js) auto

lemma lines_of_iff:
  "c \<in> set (lines_of s i) \<longleftrightarrow>
     (\<exists>j. i < j \<and> j < length (ng_particles s) \<and> node_dist s i j < real (connectionDistance s) \<and>
          c = peer_line s i j) \<or>
     (mouse_dist s i < real (connectionDistance s) + 50 \<and> c = mouse_line s i)"
proof -
  have "c \<in> set (concat (map (\<lambda>j. if node_dist s i j < real (connectionDistance s)
                                    then [peer_line s i j] else [])
               [i + 1..<length (ng_particles s)])) \<longleftrightarrow>
     (\<exists>j. i < j \<and> j < length (ng_particles s) \<and> node_dist s i j < real (connectionDistance s) \<and>
          c = peer_line s i j)"
    unfolding in_concat_if by (auto simp: Suc_le_eq)
  moreover have "c \<in> set (if mouse_dist s i < real (connectionDistance s) + 50
                          then [mouse_line s i] else []) \<longleftrightarrow>
     mouse_dist s i < real (connectionDistance s) + 50 \<and> c = mouse_line s i"
    by auto
  ultimately show ?thesis unfolding lines_of_def set_append Un_iff by (simp only:)
qed

lemma peer_alpha_decreasing:
  assumes "0 < t" "d1 < d2"
  shows "peer_alpha t d2 < peer_alpha t d1"
proof -
  have "d1 / t < d2 / t" using assms by (simp add: divide_strict_right_mono)
  then have "1 - d2 / t < 1 - d1 / t" by linarith
  then have "(1 - d2 / t) * 0.5 < (1 - d1 / t) * 0.5"
    by (rule mult_strict_right_mono) simp
  then show ?thesis by (simp only: peer_alpha_def)
qed

lemma peer_alpha_threshold: "0 < t \<Longrightarrow> peer_alpha t t = 0"
  by (simp add: peer_alpha_def)

lemma mouse_alpha_decreasing:
  assumes "0 \<le> t" "d1 < d2"
  shows "mouse_alpha t d2 < mouse_alpha t d1"
proof -
  have "d1 / (t + 50) < d2 / (t + 50)" using assms by (simp add: divide_strict_right_mono)
  then have "1 - d2 / (t + 50) < 1 - d1 / (t + 50)" by linarith
  then have "(1 - d2 / (t + 50)) * 0.8 < (1 - d1 / (t + 50)) * 0.8"
    by (rule mult_strict_right_mono) simp
  then show ?thesis by (simp only: mouse_alpha_def)
qed

lemma length_concat_if:
  "length (concat (map (\<lambda>j. if P j then [f j] else []) js)) = length (filter P js)"
  by (induction js) auto

lemma length_lines_of:
  "length (lines_of s i) =
     length (filter (\<lambda>j. node_dist s i j < real (connectionDistance s)) [i + 1..<length (ng_particles s)])
     + (if mouse_dist s i < real (connectionDistance s) + 50 then 1 else 0)"
  by (simp add: lines_of_def length_concat_if)

lemma filter_all: "(\<forall>c \<in> set xs. P c) \<Longrightarrow> filter P xs = xs"
  by (induction xs) auto

lemma filter_none: "(\<forall>c \<in> set xs. \<not> P c) \<Longrightarrow> filter P xs = []"
  by (induction xs) auto

lemma all_lines: "\<forall>c \<in> set (concat (map (lines_of s) is)). is_line c"
  by (auto intro: lines_of_is_line)

lemma draw_parts:
  assumes "0 < connectionDistance s"
  shows "draw s = ClearRect (width s) (height s)
           # concat (map (lines_of s) [0..<length (ng_particles s)])
           @ map (\<lambda>p. Circle (nx p, ny p) (nsize p) (color s)) (ng_particles s)"
    and "\<forall>i j. i < j \<and> j < length (ng_particles s) \<and> node_dist s i j < real (connectionDistance s)
           \<longrightarrow> peer_line s i j \<in> set (draw s)"
    and "\<forall>i. i < length (ng_particles s) \<and> mouse_dist s i < real (connectionDistance s) + 50
           \<longrightarrow> mouse_line s i \<in> set (draw s)"
    and "\<forall>c \<in> set (draw s). is_line c \<longrightarrow>
           (\<exists>i j. i < j \<and> j < length (ng_particles s) \<and>
                  node_dist s i j < real (connectionDistance s) \<and> c = peer_line s i j) \<or>
           (\<exists>i. i < length (ng_particles s) \<and> mouse_dist s i < real (connectionDistance s) + 50 \<and>
                c = mouse_line s i)"
    and "length (filter is_line (draw s)) =
           (\<Sum>i \<leftarrow> [0..<length (ng_particles s)].
              length (filter (\<lambda>j. node_dist s i j < real (connectionDistance s))
                        [i + 1..<length (ng_particles s)])
              + (if mouse_dist s i < real (connectionDistance s) + 50 then 1 else 0))"
    and "\<exists>ls. draw s = ClearRect (width s) (height s) # ls
                 @ map (\<lambda>p. Circle (nx p, ny p) (nsize p) (color s)) (ng_particles s) \<and>
              (\<forall>c \<in> set ls. is_line c)"
    and "\<forall>d1 d2. d1 < d2 \<longrightarrow>
           peer_alpha (real (connectionDistance s)) d2 < peer_alpha (real (connectionDistance s)) d1"
    and "peer_alpha (real (connectionDistance s)) (real (connectionDistance s)) = 0"
proof -
  let ?n = "length (ng_particles s)"
  let ?ls = "concat (map (lines_of s) [0..<?n])"
  let ?cs = "map (\<lambda>p. Circle (nx p, ny p) (nsize p) (color s)) (ng_particles s)"
  show eq: "draw s = ClearRect (width s) (height s) # ?ls @ ?cs" by (rule draw_eq)
  have mem: "c \<in> set ?ls \<longleftrightarrow> (\<exists>i < ?n. c \<in> set (lines_of s i))" for c by auto
  show "\<forall>i j. i < j \<and> j < ?n \<and> node_dist s i j < real (connectionDistance s)
           \<longrightarrow> peer_line s i j \<in> set (draw s)"
  proof (intro allI impI)
    fix i j assume a: "i < j \<and> j < ?n \<and> node_dist s i j < real (connectionDistance s)"
    then have "peer_line s i j \<in> set (lines_of s i)" unfolding lines_of_iff by blast
    moreover have "i < ?n" using a by simp
    ultimately have "peer_line s i j \<in> set ?ls" unfolding mem by blast
    then show "peer_line s i j \<in> set (draw s)" unfolding eq by simp
  qed
  show "\<forall>i. i < ?n \<and> mouse_dist s i < real (connectionDistance s) + 50
           \<longrightarrow> mouse_line s i \<in> set (draw s)"
  proof (intro allI impI)
    fix i assume a: "i < ?n \<and> mouse_dist s i < real (connectionDistance s) + 50"
    then have "mouse_line s i \<in> set (lines_of s i)" unfolding lines_of_iff by blast
    then have "mouse_line s i \<in> set ?ls" unfolding mem using a by blast
    then show "mouse_line s i \<in> set (draw s)" unfolding eq by simp
  qed
  have circ: "\<forall>c \<in> set ?cs. \<not> is_line c" by (auto simp: is_line_def)
  show "\<forall>c \<in> set (draw s). is_line c \<longrightarrow>
           (\<exists>i j. i < j \<and> j < ?n \<and> node_dist s i j < real (connectionDistance s) \<and> c = peer_line s i j) \<or>
           (\<exists>i. i < ?n \<and> mouse_dist s i < real (connectionDistance s) + 50 \<and> c = mouse_line s i)"
  proof (intro ballI impI)
    fix c assume c: "c \<in> set (draw s)" "is_line c"
    then have "c \<in> set ?ls" unfolding eq using circ by (auto simp: is_line_def)
    then obtain i where i: "i < ?n" "c \<in> set (lines_of s i)" unfolding mem by blast
    then show "(\<exists>i j. i < j \<and> j < ?n \<and> node_dist s i j < real (connectionDistance s) \<and> c = peer_line s i j) \<or>
           (\<exists>i. i < ?n \<and> mouse_dist s i < real (connectionDistance s) + 50 \<and> c = mouse_line s i)"
      unfolding lines_of_iff by blast
  qed
  have "\<not> is_line (ClearRect (width s) (height s))" by (simp add: is_line_def)
  then have "filter is_line (draw s) = ?ls"
    unfolding eq using filter_all [OF all_lines, of s "[0..<?n]"] filter_none [OF circ]
    by simp
  then have "length (filter is_line (draw s)) = sum_list (map length (map (lines_of s) [0..<?n]))"
    by (simp only: length_concat)
  then show "length (filter is_line (draw s)) =
           (\<Sum>i \<leftarrow> [0..<?n].
              length (filter (\<lambda>j. node_dist s i j < real (connectionDistance s)) [i + 1..<?n])
              + (if mouse_dist s i < real (connectionDistance s) + 50 then 1 else 0))"
    by (simp add: comp_def length_lines_of)
  show "\<exists>ls. draw s = ClearRect (width s) (height s) # ls @ ?cs \<and> (\<forall>c \<in> set ls. is_line c)"
    using eq all_lines [of s "[0..<?n]"] by blast
  have t: "0 < real (connectionDistance s)" using assms by simp
  show "\<forall>d1 d2. d1 < d2 \<longrightarrow>
           peer_alpha (real (connectionDistance s)) d2 < peer_alpha (real (connectionDistance s)) d1"
    using peer_alpha_decreasing [OF t] by blast
  show "peer_alpha (real (connectionDistance s)) (real (connectionDistance s)) = 0"
    by (rule peer_alpha_threshold [OF t])
qed

lemma example_dist: "node_dist example_graph 0 1 = 50"
proof -
  have "node_dist example_graph 0 1 = sqrt 2500"
    by (simp add: node_dist_def example_graph_def)
  also have "\<dots> = 50" by (rule real_sqrt_unique) simp_all
  finally show ?thesis .
qed

text \<open>
  Claim C5. With a positive connection threshold, \<open>draw\<close> issues the clear, then for each
  node in turn the lines of \<open>lines_of\<close>, then the circles. So a line joins two distinct
  nodes \<open>i < j\<close> whenever their distance is strictly below the threshold, with alpha
  \<open>(1 - distance / threshold) * 0.5\<close>; a line joins a node and the pointer whenever their
  distance is strictly below the threshold plus 50, with alpha
  \<open>(1 - distance / (threshold + 50)) * 0.8\<close>; every line drawn is one of these, and their
  number is the number of such pairs and nodes; all lines come before all circles; the
  pair alpha strictly decreases with the distance and is 0 at the threshold.
\<close>

theorem draw_connections:
  assumes "0 < connectionDistance s"
  shows "draw s = ClearRect (width s) (height s)
           # concat (map (lines_of s) [0..<length (ng_particles s)])
           @ map (\<lambda>p. Circle (nx p, ny p) (nsize p) (color s)) (ng_particles s) \<and>
    (\<forall>i j. i < j \<and> j < length (ng_particles s) \<and> node_dist s i j < real (connectionDistance s)
           \<longrightarrow> peer_line s i j \<in> set (draw s)) \<and>
    (\<forall>i. i < length (ng_particles s) \<and> mouse_dist s i < real (connectionDistance s) + 50
           \<longrightarrow> mouse_line s i \<in> set (draw s)) \<and>
    (\<forall>c \<in> set (draw s). is_line c \<longrightarrow>
           (\<exists>i j. i < j \<and> j < length (ng_particles s) \<and>
                  node_dist s i j < real (connectionDistance s) \<and> c = peer_line s i j) \<or>
           (\<exists>i. i < length (ng_particles s) \<and> mouse_dist s i < real (connectionDistance s) + 50 \<and>
                c = mouse_line s i)) \<and>
    length (filter is_line (draw s)) =
           (\<Sum>i \<leftarrow> [0..<length (ng_particles s)].
              length (filter (\<lambda>j. node_dist s i j < real (connectionDistance s))
                        [i + 1..<length (ng_particles s)])
              + (if mouse_dist s i < real (connectionDistance s) + 50 then 1 else 0)) \<and>
    (\<exists>ls. draw s = ClearRect (width s) (height s) # ls
                 @ map (\<lambda>p. Circle (nx p, ny p) (nsize p) (color s)) (ng_particles s) \<and>
              (\<forall>c \<in> set ls. is_line c)) \<and>
    (\<forall>d1 d2. d1 < d2 \<longrightarrow>
           peer_alpha (real (connectionDistance s)) d2 < peer_alpha (real (connectionDistance s)) d1) \<and>
    peer_alpha (real (connectionDistance s)) (real (connectionDistance s)) = 0"
  using draw_parts [OF assms] by (intro conjI)

theorem draw_connections_witness:
  "0 < connectionDistance example_graph \<and> node_dist example_graph 0 1 = 50 \<and>
   Line (0, 0) (30, 40) (Rgba ''#8b5cf6'' ((1 - 50 / 180) * 0.5)) \<in> set (draw example_graph)"
proof -
  have c: "0 < connectionDistance example_graph" "connectionDistance example_graph = 180"
    "length (ng_particles example_graph) = 3"
    by (simp_all add: example_graph_def)
  have "(0::nat) < 1 \<and> 1 < length (ng_particles example_graph) \<and>
        node_dist example_graph 0 1 < real (connectionDistance example_graph)"
    using example_dist by (simp add: c)
  with draw_connections [OF c(1)] have "peer_line example_graph 0 1 \<in> set (draw example_graph)"
    by blast
  moreover have "peer_line example_graph 0 1 =
      Line (0, 0) (30, 40) (Rgba ''#8b5cf6'' ((1 - 50 / 180) * 0.5))"
    using example_dist by (simp add: peer_line_def position_def peer_alpha_def c)
      (simp add: example_graph_def)
  ultimately show ?thesis using c(1) example_dist by simp
qed

section \<open>Properties of the animation loop\<close>

lemma keepsD:
  "keeps I f \<Longrightarrow> I s \<Longrightarrow>
   \<exists>s' k'. f s = Inr (s', k') \<and> I s' \<and> animationId s' = animationId s \<and> ctx s' = ctx s"
  by (simp add: keeps_def)

lemma loop_good:
  assumes "well_behaved M I" "I s" "frameRequests w = []" "ctx s = c"
  shows "\<exists>s' w'. loop M rnd (s, w) = Inr (s', w') \<and> good I c (s', w') \<and>
           animationId s' \<noteq> None \<and> listeners w' = listeners w"
proof -
  have "keeps I (m_update M rnd (randomCalls w))" using assms(1) by (simp add: well_behaved_def)
  from keepsD [OF this assms(2)] obtain s1 k1 where
    u: "m_update M rnd (randomCalls w) s = Inr (s1, k1)" "I s1" "ctx s1 = ctx s" by blast
  define h where "h = lastHandle w + 1"
  define w1 where "w1 = w\<lparr>randomCalls := k1, lastHandle := h, frameRequests := [h]\<rparr>"
  have r: "requestAnimationFrame (w\<lparr>randomCalls := k1\<rparr>) = (h, w1)"
    by (simp add: requestAnimationFrame_def h_def w1_def Let_def assms(3))
  have l: "loop M rnd (s, w) = Inr (s1\<lparr>animationId := Some h\<rparr>, w1)"
    by (simp add: loop_def u(1) r)
  have "I (s1\<lparr>animationId := Some h\<rparr>)" using assms(1) u(2) by (simp add: well_behaved_def)
  then have "good I c (s1\<lparr>animationId := Some h\<rparr>, w1)"
    using u(3) assms(4) by (simp add: good_def loop_inv_def w1_def h_def)
  then show ?thesis using l by (simp add: w1_def)
qed

lemma start_good:
  assumes "well_behaved M I" "good I c sw"
  shows "\<exists>sw'. start M rnd sw = Inr sw' \<and> good I c sw' \<and> listeners (snd sw') = listeners (snd sw)"
proof (cases "truthy (animationId (fst sw))")
  case True
  then show ?thesis using assms(2) by (simp add: start_def)
next
  case False
  obtain s w where sw: "sw = (s, w)" by (cases sw)
  have "animationId s = None"
    using False assms(2) by (auto simp: sw truthy_def good_def loop_inv_def split: option.splits)
  then have "frameRequests w = []" using assms(2) by (simp add: sw good_def loop_inv_def)
  moreover have "I s" "ctx s = c" using assms(2) by (simp_all add: sw good_def)
  ultimately obtain s' w' where
    "loop M rnd (s, w) = Inr (s', w')" "good I c (s', w')" "listeners w' = listeners w"
    using loop_good [OF assms(1), of s w c rnd] by blast
  then show ?thesis using False by (simp add: start_def sw)
qed

lemma stop_good:
  assumes "well_behaved M I" "good I c sw"
  shows "good I c (stop sw) \<and> animationId (fst (stop sw)) = None \<and>
         frameRequests (snd (stop sw)) = [] \<and> listeners (snd (stop sw)) = listeners (snd sw)"
proof -
  obtain s w where sw: "sw = (s, w)" by (cases sw)
  show ?thesis
  proof (cases "animationId s")
    case None
    then show ?thesis using assms(2) by (simp add: sw stop_def good_def loop_inv_def)
  next
    case (Some h)
    then have h: "h \<noteq> 0" "frameRequests w = [h]"
      using assms(2) by (simp_all add: sw good_def loop_inv_def)
    have "I (s\<lparr>animationId := None\<rparr>)"
      using assms by (simp add: sw good_def well_behaved_def)
    then show ?thesis
      using Some h assms(2)
      by (simp add: sw stop_def good_def loop_inv_def cancelAnimationFrame_def)
  qed
qed

lemma good_listeners:
  "good I c (s, w) \<Longrightarrow> frameRequests w' = frameRequests w \<Longrightarrow> good I c (s, w')"
  by (simp add: good_def loop_inv_def split: option.splits)

lemma destroy_good:
  assumes "well_behaved M I" "good I c sw"
  shows "good I c (destroy sw) \<and> animationId (fst (destroy sw)) = None \<and>
         frameRequests (snd (destroy sw)) = [] \<and>
         (''resize'', ResizeHandler) \<notin> set (listeners (snd (destroy sw))) \<and>
         (''mousemove'', MouseMoveHandler) \<notin> set (listeners (snd (destroy sw)))"
proof -
  obtain s w where st: "stop sw = (s, w)" by (cases "stop sw")
  from stop_good [OF assms] have
    g: "good I c (s, w)" "animationId s = None" "frameRequests w = []"
    by (simp_all add: st)
  define w' where "w' = removeEventListener ''mousemove'' MouseMoveHandler
              (removeEventListener ''resize'' ResizeHandler w)"
  have d: "destroy sw = (s, w')" by (simp add: destroy_def st w'_def)
  have f: "frameRequests w' = frameRequests w" by (simp add: w'_def removeEventListener_def)
  have "good I c (s, w')" by (rule good_listeners [OF g(1) f])
  moreover have "(''resize'', ResizeHandler) \<notin> set (listeners w')"
    "(''mousemove'', MouseMoveHandler) \<notin> set (listeners w')"
    by (simp_all add: w'_def removeEventListener_def)
  ultimately show ?thesis using d g f by simp
qed

lemma init_good:
  assumes "well_behaved M I" "good I c sw"
  shows "\<exists>sw'. init M page rnd sw = Inr sw' \<and> good I c sw'"
proof -
  obtain s w where sw: "sw = (s, w)" by (cases sw)
  have i: "I s" "loop_inv (s, w)" "ctx s = c" using assms(2) by (simp_all add: sw good_def)
  have "keeps I (m_setup M page rnd (randomCalls w))" using assms(1) by (simp add: well_behaved_def)
  from keepsD [OF this i(1)] obtain s1 k1 where
    u: "m_setup M page rnd (randomCalls w) s = Inr (s1, k1)" "I s1"
       "animationId s1 = animationId s" "ctx s1 = ctx s" by blast
  have "good I c (s1, w\<lparr>randomCalls := k1\<rparr>)"
    using u i by (simp add: good_def loop_inv_def split: option.splits)
  from start_good [OF assms(1) this, of rnd] obtain s2 w2 where
    s: "start M rnd (s1, w\<lparr>randomCalls := k1\<rparr>) = Inr (s2, w2)" "good I c (s2, w2)"
    by auto
  define w3 where "w3 = addEventListener ''mousemove'' MouseMoveHandler
                             (addEventListener ''resize'' ResizeHandler w2)"
  have "frameRequests w3 = frameRequests w2" by (simp add: w3_def addEventListener_def)
  then have "good I c (s2, w3)" by (rule good_listeners [OF s(2)])
  moreover have "init M page rnd sw = Inr (s2, w3)"
    by (simp add: init_def sw u(1) s(1) w3_def)
  ultimately show ?thesis by blast
qed

lemma frame_good:
  assumes "well_behaved M I" "good I c sw"
  shows "\<exists>sw'. animation_frame M rnd sw = Inr sw' \<and> good I c sw'"
proof -
  obtain s w where sw: "sw = (s, w)" by (cases sw)
  have i: "I s" "loop_inv (s, w)" "ctx s = c" using assms(2) by (simp_all add: sw good_def)
  show ?thesis
  proof (cases "animationId s")
    case None
    then have "frameRequests w = []" using i(2) by (simp add: loop_inv_def)
    then have "animation_frame M rnd sw = Inr (s, w\<lparr>frameRequests := []\<rparr>)"
      by (simp add: animation_frame_def sw)
    moreover have "good I c (s, w\<lparr>frameRequests := []\<rparr>)"
      using i None by (simp add: good_def loop_inv_def)
    ultimately show ?thesis by blast
  next
    case (Some h)
    then have f: "frameRequests w = [h]" using i(2) by (simp add: loop_inv_def)
    have "frameRequests (w\<lparr>frameRequests := []\<rparr>) = []" by simp
    from loop_good [OF assms(1) i(1) this i(3), of rnd] obtain s' w' where
      l: "loop M rnd (s, w\<lparr>frameRequests := []\<rparr>) = Inr (s', w')" "good I c (s', w')" by blast
    have "animation_frame M rnd sw = Inr (s', w')"
      by (simp add: animation_frame_def sw f l(1))
    then show ?thesis using l(2) by blast
  qed
qed

lemma dispatch_good:
  assumes "well_behaved M I" "good I c sw"
  shows "\<exists>sw'. dispatch_resize M page rnd sw = Inr sw' \<and> good I c sw'"
    and "\<exists>sw'. dispatch_mousemove M page e rnd sw = Inr sw' \<and> good I c sw'"
proof -
  obtain s w where sw: "sw = (s, w)" by (cases sw)
  have i: "I s" "loop_inv (s, w)" "ctx s = c" using assms(2) by (simp_all add: sw good_def)
  have "keeps I (m_resize M page rnd (randomCalls w))" using assms(1) by (simp add: well_behaved_def)
  from keepsD [OF this i(1)] obtain s1 k1 where
    u: "m_resize M page rnd (randomCalls w) s = Inr (s1, k1)" "I s1"
       "animationId s1 = animationId s" "ctx s1 = ctx s" by blast
  have "good I c (s1, w\<lparr>randomCalls := k1\<rparr>)"
    using u i by (simp add: good_def loop_inv_def split: option.splits)
  then show "\<exists>sw'. dispatch_resize M page rnd sw = Inr sw' \<and> good I c sw'"
    using assms(2) u(1) by (auto simp: dispatch_resize_def sw)
  have "keeps I (m_handleMouseMove M page e rnd (randomCalls w))"
    using assms(1) by (simp add: well_behaved_def)
  from keepsD [OF this i(1)] obtain s2 k2 where
    v: "m_handleMouseMove M page e rnd (randomCalls w) s = Inr (s2, k2)" "I s2"
       "animationId s2 = animationId s" "ctx s2 = ctx s" by blast
  have "good I c (s2, w\<lparr>randomCalls := k2\<rparr>)"
    using v i by (simp add: good_def loop_inv_def split: option.splits)
  then show "\<exists>sw'. dispatch_mousemove M page e rnd sw = Inr sw' \<and> good I c sw'"
    using assms(2) v(1) by (auto simp: dispatch_mousemove_def sw)
qed

lemma act_good:
  assumes "well_behaved M I" "good I c sw"
  shows "\<exists>sw'. act M rnd a sw = Inr sw' \<and> good I c sw'"
proof (cases a)
  case (Init page)
  then show ?thesis using init_good [OF assms] by simp
next
  case Destroy
  then show ?thesis using destroy_good [OF assms] by simp
next
  case Start
  then show ?thesis using start_good [OF assms, of rnd] by auto
next
  case Stop
  then show ?thesis using stop_good [OF assms] by simp
next
  case Frame
  then show ?thesis using frame_good [OF assms] by simp
next
  case (Resized page)
  then show ?thesis using dispatch_good(1) [OF assms] by simp
next
  case (MouseMoved page e)
  then show ?thesis using dispatch_good(2) [OF assms] by simp
qed

lemma run_good:
  assumes "well_behaved M I"
  shows "good I c sw \<Longrightarrow> \<exists>sw'. run M rnd as sw = Inr sw' \<and> good I c sw'"
proof (induction as arbitrary: sw)
  case Nil
  then show ?case by simp
next
  case (Cons a as)
  from act_good [OF assms Cons.prems, of rnd a] obtain sw1 where
    1: "act M rnd a sw = Inr sw1" "good I c sw1" by blast
  from Cons.IH [OF 1(2)] obtain sw2 where
    2: "run M rnd as sw1 = Inr sw2" "good I c sw2" by blast
  have "run M rnd (a # as) sw = Inr sw2" using 1(1) 2(1) by simp
  then show ?case using 2(2) by blast
qed

lemma detachedI:
  assumes "animationId s = None" "frameRequests w = []"
    "(''resize'', ResizeHandler) \<notin> set (listeners w)"
    "(''mousemove'', MouseMoveHandler) \<notin> set (listeners w)"
  shows "detached M rnd (s, w)"
proof -
  have "w\<lparr>frameRequests := []\<rparr> = w" using assms(2) by (cases w) simp
  then have "animation_frame M rnd (s, w) = Inr (s, w)"
    using assms(2) by (simp add: animation_frame_def)
  then show ?thesis
    using assms by (simp add: detached_def dispatch_resize_def dispatch_mousemove_def)
qed

lemma good_lifecycle:
  assumes "well_behaved M I" "good I c sw0"
  shows "lifecycle M rnd sw0"
  unfolding lifecycle_def
proof
  fix as
  from run_good [OF assms, of rnd as] obtain s w where
    r: "run M rnd as sw0 = Inr (s, w)" "good I c (s, w)" by auto
  have li: "loop_inv (s, w)" and c: "ctx s = c" "ctx (fst sw0) = c"
    using r(2) assms(2) by (simp_all add: good_def)
  have 1: "(animationId s \<noteq> None) = (frameRequests w \<noteq> [])"
    using li by (auto simp: loop_inv_def split: option.splits)
  have 2: "animationId s \<noteq> None \<longrightarrow> start M rnd (s, w) = Inr (s, w)"
    using li by (auto simp: loop_inv_def start_def truthy_def split: option.splits)
  have 3: "animationId s = None \<longrightarrow> stop (s, w) = (s, w)"
    by (simp add: stop_def)
  obtain s' w' where d: "destroy (s, w) = (s', w')" by (cases "destroy (s, w)")
  have "detached M rnd (s', w')"
    using destroy_good [OF assms(1) r(2)] by (intro detachedI) (simp_all add: d)
  then show "\<exists>s w. run M rnd as sw0 = Inr (s, w) \<and>
        ((animationId s \<noteq> None) = (frameRequests w \<noteq> [])) \<and>
        (animationId s \<noteq> None \<longrightarrow> start M rnd (s, w) = Inr (s, w)) \<and>
        (animationId s = None \<longrightarrow> stop (s, w) = (s, w)) \<and>
        detached M rnd (destroy (s, w)) \<and>
        ctx s = ctx (fst sw0)"
    using r(1) 1 2 3 c d by auto
qed

lemma fresh_destroy:
  "animationId s = None \<Longrightarrow> fresh w \<Longrightarrow> destroy (s, w) = (s, w)"
  by (cases w) (simp add: destroy_def stop_def fresh_def removeEventListener_def)

lemma fresh_good:
  "I s \<Longrightarrow> animationId s = None \<Longrightarrow> fresh w \<Longrightarrow> good I (ctx s) (s, w)"
  by (simp add: good_def loop_inv_def fresh_def)

subsection \<open>The three classes are well behaved\<close>

lemma GameOfLife_well_behaved: "well_behaved GameOfLife_methods grid_ok"
proof -
  have 1: "keeps grid_ok (m_setup GameOfLife_methods page rnd k)" for page rnd k
    unfolding keeps_def
  proof (intro allI impI)
    fix s :: GameOfLife
    from seed_createGrid [of rnd k s] obtain g where
      g: "seed rnd k (createGrid s) = Inr (s\<lparr>grid := g\<rparr>, k + cols s * rows s)"
         "map length g = replicate (cols s) (rows s)" by blast
    have "length (map length g) = cols s" by (simp only: g(2) length_replicate)
    then have l: "length g = cols s" by simp
    have "\<forall>c \<in> set g. length c = rows s"
    proof
      fix c assume "c \<in> set g"
      then have "length c \<in> set (map length g)" by simp
      then show "length c = rows s" by (simp only: g(2)) simp
    qed
    then have "grid_ok (s\<lparr>grid := g\<rparr>)" using l by (simp add: grid_ok_def)
    then show "\<exists>s' k'. m_setup GameOfLife_methods page rnd k s = Inr (s', k') \<and> grid_ok s' \<and>
        animationId s' = animationId s \<and> ctx s' = ctx s"
      using g(1) by (simp add: GameOfLife_methods_def)
  qed
  have 2: "keeps grid_ok (m_update GameOfLife_methods rnd k)" for rnd k
    unfolding keeps_def
  proof (intro allI impI)
    fix s :: GameOfLife assume ok: "grid_ok s"
    from update_ok [OF ok] obtain nxt where
      n: "update s = Inr (s\<lparr>grid := nxt\<rparr>)" "map length nxt = map length (grid s)" by blast
    have "grid_ok (s\<lparr>grid := nxt\<rparr>)" by (rule grid_ok_shape [OF ok n(2)])
    then show "\<exists>s' k'. m_update GameOfLife_methods rnd k s = Inr (s', k') \<and> grid_ok s' \<and>
        animationId s' = animationId s \<and> ctx s' = ctx s"
      using n(1) by (simp add: GameOfLife_methods_def)
  qed
  have 3: "keeps grid_ok (m_resize GameOfLife_methods page rnd k)" for page rnd k
    unfolding keeps_def
  proof (intro allI impI)
    fix s :: GameOfLife
    show "\<exists>s' k'. m_resize GameOfLife_methods page rnd k s = Inr (s', k') \<and> grid_ok s' \<and>
        animationId s' = animationId s \<and> ctx s' = ctx s"
      using resize_ok [of page rnd k s] by (auto simp: GameOfLife_methods_def)
  qed
  have 4: "keeps grid_ok (m_handleMouseMove GameOfLife_methods page e rnd k)" for page e rnd k
    unfolding keeps_def
  proof (intro allI impI)
    fix s :: GameOfLife assume ok: "grid_ok s"
    from handleMouseMove_painted [of page e rnd k s] obtain g' k' where
      g: "handleMouseMove page e rnd k s = Inr (s\<lparr>grid := g'\<rparr>, k')" "painted (grid s) g'" by blast
    have "grid_ok (s\<lparr>grid := g'\<rparr>)"
      using g(2) by (intro grid_ok_shape [OF ok]) (simp add: painted_def)
    then show "\<exists>s' k'. m_handleMouseMove GameOfLife_methods page e rnd k s = Inr (s', k') \<and>
        grid_ok s' \<and> animationId s' = animationId s \<and> ctx s' = ctx s"
      using g(1) by (simp add: GameOfLife_methods_def)
  qed
  have 5: "\<forall>(s::GameOfLife) a. grid_ok s \<longrightarrow> grid_ok (s\<lparr>animationId := a\<rparr>)"
    by (simp add: grid_ok_def)
  show ?thesis unfolding well_behaved_def using 1 2 3 4 5 by blast
qed

lemma pa_resize_keeps:
  "animationId (fst (pa_resize page rnd k s)) = animationId s"
  "ctx (fst (pa_resize page rnd k s)) = ctx s"
  by (simp_all add: pa_resize_def Let_def split: prod.splits)

lemma pa_update_keeps:
  "animationId (fst (pa_update rnd k s)) = animationId s"
  "ctx (fst (pa_update rnd k s)) = ctx s"
  by (simp_all add: pa_update_def split: prod.splits)

lemma ParticleAttractor_well_behaved: "well_behaved ParticleAttractor_methods (\<lambda>s. True)"
  unfolding well_behaved_def keeps_def ParticleAttractor_methods_def
  using pa_resize_keeps pa_update_keeps
  by (simp add: pa_handleMouseMove_def) (metis prod.collapse)

lemma ng_resize_keeps:
  "animationId (fst (ng_resize page rnd k s)) = animationId s"
  "ctx (fst (ng_resize page rnd k s)) = ctx s"
  by (simp_all add: ng_resize_def Let_def split: prod.splits)

lemma NetworkGraph_well_behaved: "well_behaved NetworkGraph_methods (\<lambda>s. True)"
  unfolding well_behaved_def keeps_def NetworkGraph_methods_def
  using ng_resize_keeps
  by (simp add: ng_handleMouseMove_def ng_update_def) (metis prod.collapse)

subsection \<open>The constructors\<close>

lemma new_GameOfLife_ok:
  assumes "context2d cv = Some context"
  shows "\<exists>s k'. new_GameOfLife cv c page rnd k = Inr (s, k') \<and> grid_ok s \<and>
           animationId s = None \<and> ctx s = context"
  using assms
    resize_ok [of page rnd k "\<lparr>canvas = cv, ctx = context, width = cwidth cv, height = cheight cv,
             animationId = None, color = default_color c, cols = 0, rows = 0, grid = []\<rparr>"]
  by (auto simp: new_GameOfLife_def)

lemma new_ParticleAttractor_ok:
  assumes "context2d cv = Some context"
  shows "\<exists>s k'. new_ParticleAttractor cv c page rnd k = Inr (s, k') \<and>
           animationId s = None \<and> ctx s = context"
proof -
  define s0 :: ParticleAttractor where "s0 = \<lparr>canvas = cv, ctx = context, width = cwidth cv, height = cheight cv,
             animationId = None, color = default_color c,
             particles = [], particleCount = 200, mouse = (- 1000, - 1000)\<rparr>"
  have "new_ParticleAttractor cv c page rnd k = Inr (pa_resize page rnd k s0)"
    using assms by (simp add: new_ParticleAttractor_def s0_def)
  moreover have "animationId (fst (pa_resize page rnd k s0)) = None"
    "ctx (fst (pa_resize page rnd k s0)) = context"
    by (simp_all add: pa_resize_keeps s0_def)
  ultimately show ?thesis by (metis prod.collapse)
qed

lemma new_NetworkGraph_ok:
  assumes "context2d cv = Some context"
  shows "\<exists>s k'. new_NetworkGraph cv c page rnd k = Inr (s, k') \<and>
           animationId s = None \<and> ctx s = context"
proof -
  define s0 :: NetworkGraph where "s0 = \<lparr>canvas = cv, ctx = context, width = cwidth cv, height = cheight cv,
             animationId = None, color = default_color c,
             ng_particles = [], ng_particleCount = 60, ng_mouse = (- 1000, - 1000),
             connectionDistance = 150\<rparr>"
  have "new_NetworkGraph cv c page rnd k = Inr (ng_resize page rnd k s0)"
    using assms by (simp add: new_NetworkGraph_def s0_def)
  moreover have "animationId (fst (ng_resize page rnd k s0)) = None"
    "ctx (fst (ng_resize page rnd k s0)) = context"
    by (simp_all add: ng_resize_keeps s0_def)
  ultimately show ?thesis by (metis prod.collapse)
qed

lemma run_keeps_ctx:
  assumes "well_behaved M I" "I s" "animationId s = None" "fresh w"
  shows "\<exists>s' w'. run M rnd as (s, w) = Inr (s', w') \<and> ctx s' = ctx s"
proof -
  have "good I (ctx s) (s, w)" using assms(2-4) by (rule fresh_good)
  from run_good [OF assms(1) this, of rnd as]
  show ?thesis by (auto simp: good_def)
qed

text \<open>
  Claim C8. For each of the three classes, from a constructed instance in a window where
  nothing of it is registered, and after any sequence of \<open>init\<close>, \<open>destroy\<close>, \<open>start\<close>,
  \<open>stop\<close>, animation frames, resize events and pointer events: the animation frame handle
  is set exactly when a callback is scheduled; \<open>start\<close> with a handle set changes nothing;
  \<open>stop\<close> with no handle changes nothing; \<open>destroy\<close> leaves no handle, no scheduled
  callback and neither listener registered, after which a frame, a resize event or a
  pointer event changes nothing. \<open>destroy\<close> on an instance that was never started returns
  normally and changes nothing.
\<close>

theorem loop_handle_lifecycle:
  "(\<forall>s k'. new_GameOfLife cv c page rnd k = Inr (s, k') \<longrightarrow> fresh w \<longrightarrow>
      lifecycle GameOfLife_methods rnd' (s, w) \<and> destroy (s, w) = (s, w)) \<and>
   (\<forall>s k'. new_ParticleAttractor cv c page rnd k = Inr (s, k') \<longrightarrow> fresh w \<longrightarrow>
      lifecycle ParticleAttractor_methods rnd' (s, w) \<and> destroy (s, w) = (s, w)) \<and>
   (\<forall>s k'. new_NetworkGraph cv c page rnd k = Inr (s, k') \<longrightarrow> fresh w \<longrightarrow>
      lifecycle NetworkGraph_methods rnd' (s, w) \<and> destroy (s, w) = (s, w))"
proof (intro conjI allI impI)
  fix s k' assume n: "new_GameOfLife cv c page rnd k = Inr (s, k')" and f: "fresh w"
  then obtain cx where cx: "context2d cv = Some cx"
    by (cases "context2d cv") (simp_all add: new_GameOfLife_def)
  from new_GameOfLife_ok [OF cx, of c page rnd k] n
  have i: "grid_ok s" "animationId s = None" by auto
  show "lifecycle GameOfLife_methods rnd' (s, w)"
    by (rule good_lifecycle [OF GameOfLife_well_behaved fresh_good [of grid_ok, OF i f]])
  show "destroy (s, w) = (s, w)" by (rule fresh_destroy [OF i(2) f])
next
  fix s k' assume n: "new_ParticleAttractor cv c page rnd k = Inr (s, k')" and f: "fresh w"
  then obtain cx where cx: "context2d cv = Some cx"
    by (cases "context2d cv") (simp_all add: new_ParticleAttractor_def)
  from new_ParticleAttractor_ok [OF cx, of c page rnd k] n
  have i: "animationId s = None" by auto
  show "lifecycle ParticleAttractor_methods rnd' (s, w)"
    by (rule good_lifecycle [OF ParticleAttractor_well_behaved fresh_good [of "\<lambda>s. True", OF TrueI i f]])
  show "destroy (s, w) = (s, w)" by (rule fresh_destroy [OF i f])
next
  fix s k' assume n: "new_NetworkGraph cv c page rnd k = Inr (s, k')" and f: "fresh w"
  then obtain cx where cx: "context2d cv = Some cx"
    by (cases "context2d cv") (simp_all add: new_NetworkGraph_def)
  from new_NetworkGraph_ok [OF cx, of c page rnd k] n
  have i: "animationId s = None" by auto
  show "lifecycle NetworkGraph_methods rnd' (s, w)"
    by (rule good_lifecycle [OF NetworkGraph_well_behaved fresh_good [of "\<lambda>s. True", OF TrueI i f]])
  show "destroy (s, w) = (s, w)" by (rule fresh_destroy [OF i f])
qed

theorem loop_handle_lifecycle_witness:
  "\<exists>s k'. new_GameOfLife canvas_ok None page0 rnd0 0 = Inr (s, k') \<and> fresh window0 \<and>
     destroy (s, window0) = (s, window0) \<and>
     (\<exists>s' w'. run GameOfLife_methods rnd0 [Init page0, Frame] (s, window0) = Inr (s', w') \<and>
        ((animationId s' \<noteq> None) = (frameRequests w' \<noteq> [])) \<and>
        detached GameOfLife_methods rnd0 (destroy (s', w')))"
proof -
  have o: "context2d canvas_ok = Some 7" and f: "fresh window0"
    by (simp_all add: canvas_ok_def fresh_def window0_def)
  from new_GameOfLife_ok [OF o, of None page0 rnd0 0] obtain s k' where
    n: "new_GameOfLife canvas_ok None page0 rnd0 0 = Inr (s, k')" by blast
  note t = loop_handle_lifecycle [of canvas_ok None page0 rnd0 0 window0 rnd0, THEN conjunct1,
      rule_format, OF n f]
  from t have l: "lifecycle GameOfLife_methods rnd0 (s, window0)"
    and d: "destroy (s, window0) = (s, window0)" by simp_all
  from l [unfolded lifecycle_def, rule_format, of "[Init page0, Frame]"]
  have "\<exists>s' w'. run GameOfLife_methods rnd0 [Init page0, Frame] (s, window0) = Inr (s', w') \<and>
        ((animationId s' \<noteq> None) = (frameRequests w' \<noteq> [])) \<and>
        detached GameOfLife_methods rnd0 (destroy (s', w'))"
    by blast
  with n f d show ?thesis by blast
qed

text \<open>
  Claim C9. For each of the three classes, construction fails exactly when
  \<open>getContext('2d')\<close> returns \<open>null\<close>, and then with the initialization error and no
  instance; when a context is obtained, construction returns an instance whose \<open>ctx\<close> is
  that context, and \<open>ctx\<close> is still that context after any sequence of calls and browser
  events.
\<close>

theorem construction_needs_context:
  "((\<exists>e. new_GameOfLife cv c page rnd k = Inl e) \<longleftrightarrow> context2d cv = None) \<and>
   ((\<exists>e. new_ParticleAttractor cv c page rnd k = Inl e) \<longleftrightarrow> context2d cv = None) \<and>
   ((\<exists>e. new_NetworkGraph cv c page rnd k = Inl e) \<longleftrightarrow> context2d cv = None) \<and>
   (context2d cv = None \<longrightarrow>
      new_GameOfLife cv c page rnd k = Inl SurfaceInitError \<and>
      new_ParticleAttractor cv c page rnd k = Inl SurfaceInitError \<and>
      new_NetworkGraph cv c page rnd k = Inl SurfaceInitError) \<and>
   (\<forall>context. context2d cv = Some context \<longrightarrow>
      (\<exists>s k'. new_GameOfLife cv c page rnd k = Inr (s, k') \<and> ctx s = context \<and>
         (\<forall>w rnd' as. fresh w \<longrightarrow>
            (\<exists>s' w'. run GameOfLife_methods rnd' as (s, w) = Inr (s', w') \<and> ctx s' = context))) \<and>
      (\<exists>s k'. new_ParticleAttractor cv c page rnd k = Inr (s, k') \<and> ctx s = context \<and>
         (\<forall>w rnd' as. fresh w \<longrightarrow>
            (\<exists>s' w'. run ParticleAttractor_methods rnd' as (s, w) = Inr (s', w') \<and> ctx s' = context))) \<and>
      (\<exists>s k'. new_NetworkGraph cv c page rnd k = Inr (s, k') \<and> ctx s = context \<and>
         (\<forall>w rnd' as. fresh w \<longrightarrow>
            (\<exists>s' w'. run NetworkGraph_methods rnd' as (s, w) = Inr (s', w') \<and> ctx s' = context))))"
  (is "?A1 \<and> ?A2 \<and> ?A3 \<and> ?B \<and> ?C")
proof -
  have none: "context2d cv = None \<Longrightarrow>
      new_GameOfLife cv c page rnd k = Inl SurfaceInitError \<and>
      new_ParticleAttractor cv c page rnd k = Inl SurfaceInitError \<and>
      new_NetworkGraph cv c page rnd k = Inl SurfaceInitError"
    by (simp add: new_GameOfLife_def new_ParticleAttractor_def new_NetworkGraph_def)
  have some: "(\<exists>s k'. new_GameOfLife cv c page rnd k = Inr (s, k') \<and> ctx s = cx \<and>
         (\<forall>w rnd' as. fresh w \<longrightarrow>
            (\<exists>s' w'. run GameOfLife_methods rnd' as (s, w) = Inr (s', w') \<and> ctx s' = cx))) \<and>
      (\<exists>s k'. new_ParticleAttractor cv c page rnd k = Inr (s, k') \<and> ctx s = cx \<and>
         (\<forall>w rnd' as. fresh w \<longrightarrow>
            (\<exists>s' w'. run ParticleAttractor_methods rnd' as (s, w) = Inr (s', w') \<and> ctx s' = cx))) \<and>
      (\<exists>s k'. new_NetworkGraph cv c page rnd k = Inr (s, k') \<and> ctx s = cx \<and>
         (\<forall>w rnd' as. fresh w \<longrightarrow>
            (\<exists>s' w'. run NetworkGraph_methods rnd' as (s, w) = Inr (s', w') \<and> ctx s' = cx)))"
    if cx: "context2d cv = Some cx" for cx
  proof (intro conjI)
    from new_GameOfLife_ok [OF cx, of c page rnd k] obtain s1 k1 where
      1: "new_GameOfLife cv c page rnd k = Inr (s1, k1)" "grid_ok s1" "animationId s1 = None"
         "ctx s1 = cx" by blast
    have "\<exists>s' w'. run GameOfLife_methods rnd' as (s1, w) = Inr (s', w') \<and> ctx s' = cx"
      if "fresh w" for w rnd' as
      using run_keeps_ctx [OF GameOfLife_well_behaved 1(2,3) that, of rnd' as] 1(4) by simp
    then show "\<exists>s k'. new_GameOfLife cv c page rnd k = Inr (s, k') \<and> ctx s = cx \<and>
         (\<forall>w rnd' as. fresh w \<longrightarrow>
            (\<exists>s' w'. run GameOfLife_methods rnd' as (s, w) = Inr (s', w') \<and> ctx s' = cx))"
      using 1(1,4) by blast
  next
    from new_ParticleAttractor_ok [OF cx, of c page rnd k] obtain s2 k2 where
      2: "new_ParticleAttractor cv c page rnd k = Inr (s2, k2)" "animationId s2 = None"
         "ctx s2 = cx" by blast
    have "\<exists>s' w'. run ParticleAttractor_methods rnd' as (s2, w) = Inr (s', w') \<and> ctx s' = cx"
      if "fresh w" for w rnd' as
      using run_keeps_ctx [OF ParticleAttractor_well_behaved TrueI 2(2) that, of rnd' as] 2(3) by simp
    then show "\<exists>s k'. new_ParticleAttractor cv c page rnd k = Inr (s, k') \<and> ctx s = cx \<and>
         (\<forall>w rnd' as. fresh w \<longrightarrow>
            (\<exists>s' w'. run ParticleAttractor_methods rnd' as (s, w) = Inr (s', w') \<and> ctx s' = cx))"
      using 2(1,3) by blast
  next
    from new_NetworkGraph_ok [OF cx, of c page rnd k] obtain s3 k3 where
      3: "new_NetworkGraph cv c page rnd k = Inr (s3, k3)" "animationId s3 = None"
         "ctx s3 = cx" by blast
    have "\<exists>s' w'. run NetworkGraph_methods rnd' as (s3, w) = Inr (s', w') \<and> ctx s' = cx"
      if "fresh w" for w rnd' as
      using run_keeps_ctx [OF NetworkGraph_well_behaved TrueI 3(2) that, of rnd' as] 3(3) by simp
    then show "\<exists>s k'. new_NetworkGraph cv c page rnd k = Inr (s, k') \<and> ctx s = cx \<and>
         (\<forall>w rnd' as. fresh w \<longrightarrow>
            (\<exists>s' w'. run NetworkGraph_methods rnd' as (s, w) = Inr (s', w') \<and> ctx s' = cx))"
      using 3(1,3) by blast
  qed
  have B: ?B using none by blast
  have C: ?C using some by blast
  have A1: ?A1
  proof (cases "context2d cv")
    case None
    then show ?thesis using none by simp
  next
    case (Some cx)
    then show ?thesis using some [OF Some] by auto
  qed
  have A2: ?A2
  proof (cases "context2d cv")
    case None
    then show ?thesis using none by simp
  next
    case (Some cx)
    then show ?thesis using some [OF Some] by auto
  qed
  have A3: ?A3
  proof (cases "context2d cv")
    case None
    then show ?thesis using none by simp
  next
    case (Some cx)
    then show ?thesis using some [OF Some] by auto
  qed
  from A1 A2 A3 B C show ?thesis by (intro conjI)
qed

theorem construction_needs_context_witness:
  "new_GameOfLife canvas_none None page0 rnd0 0 = Inl SurfaceInitError \<and>
   new_NetworkGraph canvas_none None page0 rnd0 0 = Inl SurfaceInitError \<and>
   (\<exists>s k'. new_GameOfLife canvas_ok None page0 rnd0 0 = Inr (s, k') \<and> ctx s = 7 \<and>
      (\<exists>s' w'. run GameOfLife_methods rnd0 [Init page0, Frame, Destroy] (s, window0) = Inr (s', w') \<and>
         ctx s' = 7))"
proof -
  have n: "context2d canvas_none = None" and o: "context2d canvas_ok = Some 7"
    and f: "fresh window0"
    by (simp_all add: canvas_none_def canvas_ok_def fresh_def window0_def)
  note t1 = construction_needs_context [of canvas_none None page0 rnd0 0, THEN conjunct2,
      THEN conjunct2, THEN conjunct2, THEN conjunct1, rule_format, OF n]
  have 1: "new_GameOfLife canvas_none None page0 rnd0 0 = Inl SurfaceInitError"
    "new_NetworkGraph canvas_none None page0 rnd0 0 = Inl SurfaceInitError"
    using t1 by simp_all
  note t2 = construction_needs_context [of canvas_ok None page0 rnd0 0, THEN conjunct2,
      THEN conjunct2, THEN conjunct2, THEN conjunct2, rule_format, OF o, THEN conjunct1]
  from t2 obtain s k' where
    2: "new_GameOfLife canvas_ok None page0 rnd0 0 = Inr (s, k')" "ctx s = 7"
       "\<forall>w rnd' as. fresh w \<longrightarrow>
            (\<exists>s' w'. run GameOfLife_methods rnd' as (s, w) = Inr (s', w') \<and> ctx s' = 7)"
    by blast
  from 2(3) f have "\<exists>s' w'. run GameOfLife_methods rnd0 [Init page0, Frame, Destroy] (s, window0) = Inr (s', w') \<and>
         ctx s' = 7" by blast
  with 1 2(1,2) show ?thesis by blast
qed

end
